theory Spec2Isabelle
  imports Complex_Main "HOL-Library.Word" "HOL-Library.Log_Nat"
begin

unbundle bit_operations_syntax

section \<open>Numbers, bytes and loops\<close>

text \<open>
  JavaScript numbers are IEEE doubles. In the gray-world balancer, where the rounding of
  doubles decides what the scale factors are, every arithmetic operation is followed by the
  rounding \<open>fl\<close> to the nearest double (53 significant bits, a tie going to the even
  significand; the exponent range is not modelled: the balancer's values lie between
  \<open>1e-6\<close> and \<open>2^53\<close>). In the other stages numbers are modelled as \<open>real\<close> with exact
  arithmetic: neither the rounding of doubles, nor the narrowing of a \<open>Float32Array\<close>
  store, nor \<open>NaN\<close> is part of the model there. The one infinite value the code uses, the
  initial \<open>-Infinity\<close> of the running maximum in \<open>buildResult\<close>, has a constructor of its
  own. Values the code keeps in 32 bits (\<open>| 0\<close>, \<open><<\<close>, \<open>>>>\<close>, \<open>^\<close>, \<open>Math.imul\<close>) are
  \<open>32 word\<close>, read back with \<open>sint\<close> (signed) or \<open>unat\<close> (unsigned, after \<open>>>> 0\<close>).
  Bytes of a \<open>Buffer\<close> are \<open>8 word\<close>.
\<close>

type_synonym byte = "8 word"
type_synonym int32 = "32 word"

text \<open>
  The binade of a number other than 0: the exponent \<open>e\<close> with \<open>2^e \<le> |x| < 2^(e + 1)\<close>.
\<close>

definition binade :: "real \<Rightarrow> int" where
  "binade x =
     (if 1 \<le> \<bar>x\<bar> then bitlen \<lfloor>\<bar>x\<bar>\<rfloor> - 1 else - bitlen (\<lceil>1 / \<bar>x\<bar>\<rceil> - 1))"

text \<open>The nearest integer, a tie going to the even one.\<close>

definition round_even :: "real \<Rightarrow> int" where
  "round_even y =
     (let f = \<lfloor>y\<rfloor>; d = y - of_int f
      in if d < 1 / 2 then f else if 1 / 2 < d then f + 1 else if even f then f else f + 1)"

text \<open>
  The double nearest to \<open>x\<close>: \<open>x\<close> rounded to a multiple of the unit in the last place
  of its binade, \<open>2^(e - 52)\<close>.
\<close>

definition fl :: "real \<Rightarrow> real" where
  "fl x =
     (if x = 0 then 0
      else let ulp = 2 powi (binade x - 52) in of_int (round_even (x / ulp)) * ulp)"

text \<open>\<open>Math.round\<close>: the nearest integer, a tie going up.\<close>

definition Math_round :: "real \<Rightarrow> int" where
  "Math_round x = \<lfloor>x + 1 / 2\<rfloor>"

text \<open>\<open>x | 0\<close> on a number holding an integer: the value modulo \<open>2^32\<close>, as a signed 32-bit value.\<close>

definition ToInt32 :: "int \<Rightarrow> int32" where
  "ToInt32 x = word_of_int x"

text \<open>\<open>Math.imul\<close>: the low 32 bits of the product.\<close>

definition Math_imul :: "int32 \<Rightarrow> int32 \<Rightarrow> int32" where
  "Math_imul a b = a * b"

text \<open>
  \<open>for (let i = i0; i < n; i += step) s = body(i, s)\<close>. Every loop of the source has a
  positive step (a literal, or \<open>Math.max(1, ...)\<close>); the test \<open>0 < step\<close> is there for the
  termination proof only.
\<close>

function for_loop :: "nat \<Rightarrow> nat \<Rightarrow> nat \<Rightarrow> (nat \<Rightarrow> 'a \<Rightarrow> 'a) \<Rightarrow> 'a \<Rightarrow> 'a" where
  "for_loop i n step body s =
     (if i < n \<and> 0 < step then for_loop (i + step) n step body (body i s) else s)"
  by pat_completeness auto
termination
  by (relation "measure (\<lambda>(i, n, step, body, s). n - i)") auto

declare for_loop.simps [simp del]

section \<open>types/turbidity.ts\<close>

datatype TurbidityClass =
  ultra_cloudy | very_cloudy | cloudy | lightly_cloudy | lightly_clear | clear

definition TURBIDITY_CLASSES :: "TurbidityClass list" where
  "TURBIDITY_CLASSES =
     [ultra_cloudy, very_cloudy, cloudy, lightly_cloudy, lightly_clear, clear]"

fun TURBIDITY_LABELS :: "TurbidityClass \<Rightarrow> string" where
  "TURBIDITY_LABELS ultra_cloudy = ''Ultra Cloudy''"
| "TURBIDITY_LABELS very_cloudy = ''Very Cloudy''"
| "TURBIDITY_LABELS cloudy = ''Cloudy''"
| "TURBIDITY_LABELS lightly_cloudy = ''Lightly Cloudy''"
| "TURBIDITY_LABELS lightly_clear = ''Lightly Clear''"
| "TURBIDITY_LABELS clear = ''Clear''"

record NtuRange =
  min_ntu :: real
  max_ntu :: real

fun NTU_RANGES :: "TurbidityClass \<Rightarrow> NtuRange" where
  "NTU_RANGES ultra_cloudy = \<lparr>min_ntu = 3336.0, max_ntu = 3844.0\<rparr>"
| "NTU_RANGES very_cloudy = \<lparr>min_ntu = 1300.0, max_ntu = 2520.0\<rparr>"
| "NTU_RANGES cloudy = \<lparr>min_ntu = 600.0, max_ntu = 1200.0\<rparr>"
| "NTU_RANGES lightly_cloudy = \<lparr>min_ntu = 150.0, max_ntu = 450.0\<rparr>"
| "NTU_RANGES lightly_clear = \<lparr>min_ntu = 25.0, max_ntu = 90.0\<rparr>"
| "NTU_RANGES clear = \<lparr>min_ntu = 1.47, max_ntu = 17.13\<rparr>"

record ClassProbability =
  className :: TurbidityClass
  label :: string
  probability :: real

text \<open>
  The running maximum of \<open>buildResult\<close> starts at \<open>-Infinity\<close>, and the result's
  \<open>confidence\<close> is that variable.
\<close>

datatype maxprob = NegInfinity | Finite real

record PredictionResult =
  predictedClass :: TurbidityClass
  result_label :: string
  confidence :: maxprob
  ntuRange :: NtuRange
  probabilities :: "ClassProbability list"

section \<open>types/errors.ts\<close>

datatype ErrorCode =
  VALIDATION_ERROR | INFERENCE_FAILED | IMAGE_PROCESSING_FAILED | INTERNAL_ERROR

record AppError =
  message :: string
  statusCode :: nat
  code :: ErrorCode
  isOperational :: bool

definition imageProcessing :: "string \<Rightarrow> AppError" where
  "imageProcessing detail =
     \<lparr>message = ''Image processing failed: '' @ detail, statusCode = 422,
      code = IMAGE_PROCESSING_FAILED, isOperational = True\<rparr>"

text \<open>
  What a \<open>catch\<close> clause can receive: an \<open>AppError\<close>, another \<open>Error\<close> with its message, or a
  value that is no \<open>Error\<close>.
\<close>

datatype thrown = ThrownAppError AppError | ThrownError string | ThrownOther

section \<open>services/preprocessing.ts\<close>

definition TARGET_SIZE :: nat where
  "TARGET_SIZE = 224"

definition RESIZE_SIZE :: nat where
  "RESIZE_SIZE = 256"

definition IMAGENET_MEAN :: "real list" where
  "IMAGENET_MEAN = [0.485, 0.456, 0.406]"

definition IMAGENET_STD :: "real list" where
  "IMAGENET_STD = [0.229, 0.224, 0.225]"

record PreprocessedImage =
  data :: "real list"
  channels :: nat
  height :: nat
  width :: nat

text \<open>\<open>Math.min(255, Math.max(0, Math.round(x)))\<close>, stored into a byte.\<close>

definition clamp_byte :: "real \<Rightarrow> byte" where
  "clamp_byte x = word_of_int (min 255 (max 0 (Math_round x)))"

text \<open>
  The three scale factors of \<open>applyGrayWorld\<close> (its locals \<open>scaleR\<close>, \<open>scaleG\<close>, \<open>scaleB\<close>),
  in double arithmetic: each \<open>+\<close> and \<open>/\<close> of the source is rounded, and \<open>1e-6\<close> is the
  double nearest to it. The reads \<open>pixels[i]\<close>, \<open>pixels[i + 1]\<close>, \<open>pixels[i + 2]\<close> are
  inside the buffer when \<open>length\<close> is its length and a multiple of 3, which is how
  \<open>preprocessImage\<close> calls it.
\<close>

definition grayWorld_scales :: "byte list \<Rightarrow> nat \<Rightarrow> real \<times> real \<times> real" where
  "grayWorld_scales pixels len =
     (let pixelCount = fl (real len / 3);
          (sumR, sumG, sumB) =
            for_loop 0 len 3
              (\<lambda>i (sumR, sumG, sumB).
                 (fl (sumR + real (unat (pixels ! i))),
                  fl (sumG + real (unat (pixels ! (i + 1)))),
                  fl (sumB + real (unat (pixels ! (i + 2))))))
              (0, 0, 0);
          epsilon = fl (1 / 1000000);
          meanR = fl (fl (sumR / pixelCount) + epsilon);
          meanG = fl (fl (sumG / pixelCount) + epsilon);
          meanB = fl (fl (sumB / pixelCount) + epsilon);
          overallMean = fl (fl (fl (meanR + meanG) + meanB) / 3)
      in (fl (overallMean / meanR), fl (overallMean / meanG), fl (overallMean / meanB)))"

text \<open>
  The product \<open>pixels[i] * scale\<close> is rounded to a double before \<open>Math.round\<close>. A store
  past the end of a \<open>Buffer\<close> is ignored, as \<open>list_update\<close> out of range is.
\<close>

definition applyGrayWorld :: "byte list \<Rightarrow> nat \<Rightarrow> byte list" where
  "applyGrayWorld pixels len =
     (let (scaleR, scaleG, scaleB) = grayWorld_scales pixels len
      in for_loop 0 len 3
           (\<lambda>i out.
              out[i := clamp_byte (fl (real (unat (pixels ! i)) * scaleR)),
                  i + 1 := clamp_byte (fl (real (unat (pixels ! (i + 1))) * scaleG)),
                  i + 2 := clamp_byte (fl (real (unat (pixels ! (i + 2))) * scaleB))])
           (replicate len 0))"

text \<open>
  The decoded and resized image \<open>sharp\<close> resolves with: the raw buffer and, under \<open>info\<close>, its
  width and height.
\<close>

record ResizedImage =
  resized_data :: "byte list"
  info_width :: int
  info_height :: int

text \<open>
  \<open>source.copy(target, targetStart, sourceStart, sourceEnd)\<close> of Node's \<open>Buffer\<close>: a
  negative offset or a \<open>sourceStart\<close> past the end of the source throws a \<open>RangeError\<close>;
  otherwise the bytes that fit are copied and the rest of the target is kept.
\<close>

definition Buffer_copy :: "byte list \<Rightarrow> byte list \<Rightarrow> int \<Rightarrow> int \<Rightarrow> int \<Rightarrow> thrown + byte list" where
  "Buffer_copy source target targetStart sourceStart sourceEnd =
     (if targetStart < 0 \<or> sourceStart < 0 \<or> int (length source) < sourceStart \<or> sourceEnd < 0
      then Inl (ThrownError ''ERR_OUT_OF_RANGE'')
      else if int (length target) \<le> targetStart \<or> sourceEnd \<le> sourceStart then Inr target
      else
        let nb = min (min (nat (sourceEnd - sourceStart)) (length target - nat targetStart))
                     (length source - nat sourceStart)
        in Inr (take (nat targetStart) target @ take nb (drop (nat sourceStart) source)
                  @ drop (nat targetStart + nb) target))"

text \<open>The row loop of the centre crop: \<open>for (let y = 0; y < TARGET_SIZE; y++)\<close>.\<close>

fun crop_rows :: "ResizedImage \<Rightarrow> int \<Rightarrow> int \<Rightarrow> nat list \<Rightarrow> byte list \<Rightarrow> thrown + byte list" where
  "crop_rows resized cropLeft cropTop [] cropped = Inr cropped"
| "crop_rows resized cropLeft cropTop (y # ys) cropped =
     (let srcOffset = ((cropTop + int y) * info_width resized + cropLeft) * 3;
          dstOffset = int (y * TARGET_SIZE * 3)
      in case Buffer_copy (resized_data resized) cropped dstOffset srcOffset
                (srcOffset + int (TARGET_SIZE * 3)) of
           Inl err \<Rightarrow> Inl err
         | Inr cropped' \<Rightarrow> crop_rows resized cropLeft cropTop ys cropped')"

definition cropLeft_of :: "ResizedImage \<Rightarrow> int" where
  "cropLeft_of resized = (info_width resized - int TARGET_SIZE) div 2"

definition cropTop_of :: "ResizedImage \<Rightarrow> int" where
  "cropTop_of resized = (info_height resized - int TARGET_SIZE) div 2"

definition center_crop :: "ResizedImage \<Rightarrow> thrown + byte list" where
  "center_crop resized =
     crop_rows resized (cropLeft_of resized) (cropTop_of resized) [0..<TARGET_SIZE]
       (replicate (TARGET_SIZE * TARGET_SIZE * 3) 0)"

text \<open>The normalisation loop, filling the planes of the tensor.\<close>

definition build_tensor :: "byte list \<Rightarrow> real list" where
  "build_tensor balanced =
     (let totalPixels = TARGET_SIZE * TARGET_SIZE
      in for_loop 0 totalPixels 1
           (\<lambda>i tensor.
              tensor[i := (real (unat (balanced ! (i * 3))) / 255 - IMAGENET_MEAN ! 0)
                            / IMAGENET_STD ! 0,
                     totalPixels + i :=
                          (real (unat (balanced ! (i * 3 + 1))) / 255 - IMAGENET_MEAN ! 1)
                            / IMAGENET_STD ! 1,
                     2 * totalPixels + i :=
                          (real (unat (balanced ! (i * 3 + 2))) / 255 - IMAGENET_MEAN ! 2)
                            / IMAGENET_STD ! 2])
           (replicate (3 * totalPixels) 0))"

text \<open>The \<open>catch\<close> clause of \<open>preprocessImage\<close>.\<close>

fun catch_clause :: "thrown \<Rightarrow> AppError" where
  "catch_clause (ThrownAppError err) = err"
| "catch_clause (ThrownError msg) = imageProcessing msg"
| "catch_clause ThrownOther = imageProcessing ''Unknown error''"

text \<open>
  \<open>preprocessImage\<close>. The \<open>sharp\<close> pipeline (orient, resize to cover 256 by 256, drop alpha,
  raw bytes) is a library call: it is the parameter \<open>decode\<close>, which either throws or
  resolves with the resized image.
\<close>

definition preprocessImage ::
  "(byte list \<Rightarrow> thrown + ResizedImage) \<Rightarrow> byte list \<Rightarrow> AppError + PreprocessedImage" where
  "preprocessImage decode imageBuffer =
     (case decode imageBuffer of
        Inl err \<Rightarrow> Inl (catch_clause err)
      | Inr resized \<Rightarrow>
          (case center_crop resized of
             Inl err \<Rightarrow> Inl (catch_clause err)
           | Inr cropped \<Rightarrow>
               let balanced = applyGrayWorld cropped (length cropped)
               in Inr \<lparr>data = build_tensor balanced, channels = 3,
                       height = TARGET_SIZE, width = TARGET_SIZE\<rparr>))"

section \<open>services/classifier.ts\<close>

definition hashTensor :: "real list \<Rightarrow> int" where
  "hashTensor tensor =
     (let step = max 1 (length tensor div 256);
          hash = for_loop 0 (length tensor) step
                   (\<lambda>i hash. ToInt32 (sint (push_bit 5 hash) - sint hash
                                        + Math_round ((tensor ! i + 3) * 10000)))
                   (0 :: int32)
      in \<bar>sint hash\<bar>)"

text \<open>
  mulberry32. \<open>createRng\<close> gives the initial state \<open>seed | 0\<close>; \<open>rng\<close> is one call of the
  closure: the value returned and the new state.
\<close>

definition createRng :: "int \<Rightarrow> int32" where
  "createRng seed = ToInt32 seed"

definition rng :: "int32 \<Rightarrow> real \<times> int32" where
  "rng s0 =
     (let s = s0 + 0x6d2b79f5;
          t = Math_imul (s XOR drop_bit 15 s) (1 OR s);
          t = (t + Math_imul (t XOR drop_bit 7 t) (61 OR t)) XOR t
      in (real (unat (t XOR drop_bit 14 t)) / 4294967296, s))"

text \<open>\<open>Math.max(...logits)\<close> is not used when there is nothing to map over.\<close>

fun softmax :: "real list \<Rightarrow> real list" where
  "softmax [] = []"
| "softmax (l # ls) =
     (let mx = fold max ls l;
          exps = map (\<lambda>v. exp (v - mx)) (l # ls);
          sum = foldl (\<lambda>a b. a + b) 0 exps
      in map (\<lambda>v. v / sum) exps)"

text \<open>\<open>p > maxProb\<close>.\<close>

fun exceeds :: "real \<Rightarrow> maxprob \<Rightarrow> bool" where
  "exceeds p NegInfinity = True"
| "exceeds p (Finite m) = (m < p)"

text \<open>\<open>probs[i] ?? 0\<close>.\<close>

definition prob_at :: "real list \<Rightarrow> nat \<Rightarrow> real" where
  "prob_at probs i = (if i < length probs then probs ! i else 0)"

text \<open>
  The callback of \<open>TURBIDITY_CLASSES.map\<close> in \<open>buildResult\<close>, over the classes with their
  indices, with the two variables \<open>maxIdx\<close> and \<open>maxProb\<close> it assigns.
\<close>

fun buildResult_map ::
  "real list \<Rightarrow> (TurbidityClass \<times> nat) list \<Rightarrow> nat \<times> maxprob
     \<Rightarrow> (nat \<times> maxprob) \<times> ClassProbability list" where
  "buildResult_map probs [] st = (st, [])"
| "buildResult_map probs ((cls, i) # rest) (maxIdx, maxProb) =
     (let p = prob_at probs i;
          st = (if exceeds p maxProb then (i, Finite p) else (maxIdx, maxProb));
          (st', out) = buildResult_map probs rest st
      in (st', \<lparr>className = cls, label = TURBIDITY_LABELS cls, probability = p\<rparr> # out))"

definition buildResult :: "real list \<Rightarrow> PredictionResult" where
  "buildResult probs =
     (let ((maxIdx, maxProb), probabilities) =
            buildResult_map probs (zip TURBIDITY_CLASSES [0..<length TURBIDITY_CLASSES])
              (0, NegInfinity);
          predicted = TURBIDITY_CLASSES ! maxIdx
      in \<lparr>predictedClass = predicted, result_label = TURBIDITY_LABELS predicted,
          confidence = maxProb, ntuRange = NTU_RANGES predicted,
          probabilities = probabilities\<rparr>)"

text \<open>The locals \<open>brightness\<close> and \<open>center\<close> of \<open>predict\<close>.\<close>

definition predict_brightness :: "PreprocessedImage \<Rightarrow> real" where
  "predict_brightness img =
     (let totalPixels = height img * width img;
          means = [0.485, 0.456, 0.406];
          stds = [0.229, 0.224, 0.225];
          brightness =
            for_loop 0 3 1
              (\<lambda>c brightness.
                 let offset = c * totalPixels;
                     channelSum =
                       for_loop 0 totalPixels 1
                         (\<lambda>i channelSum.
                            channelSum + (data img ! (offset + i) * stds ! c + means ! c))
                         0
                 in brightness + channelSum / real totalPixels)
              0
      in brightness / 3)"

definition center_of :: "real \<Rightarrow> int" where
  "center_of brightness =
     (let classCount = int (length TURBIDITY_CLASSES)
      in min (classCount - 1)
           (max 0 (Math_round ((1 - brightness) * real_of_int (classCount - 1)))))"

definition predict_center :: "PreprocessedImage \<Rightarrow> int" where
  "predict_center img = center_of (predict_brightness img)"

text \<open>
  The callback of \<open>TURBIDITY_CLASSES.map\<close> in \<open>predict\<close>, over the class indices, with the
  state of the generator it advances.
\<close>

fun logits_map :: "int \<Rightarrow> nat list \<Rightarrow> int32 \<Rightarrow> real list \<times> int32" where
  "logits_map center [] s = ([], s)"
| "logits_map center (i # rest) s =
     (let distance = \<bar>int i - center\<bar>;
          (r, s') = rng s;
          logit = - real_of_int distance * 1.8 + (r - 0.5) * 0.3;
          (logits, s'') = logits_map center rest s'
      in (logit # logits, s''))"

definition predict_logits :: "PreprocessedImage \<Rightarrow> real list \<times> int32" where
  "predict_logits img =
     logits_map (predict_center img) [0..<length TURBIDITY_CLASSES]
       (createRng (hashTensor (data img)))"

definition predict :: "PreprocessedImage \<Rightarrow> PredictionResult" where
  "predict img = buildResult (softmax (fst (predict_logits img)))"

section \<open>routes/predict.ts\<close>

text \<open>The handler's two calls: \<open>preprocessImage\<close>, then \<open>predict\<close> on its tensor.\<close>

definition classify ::
  "(byte list \<Rightarrow> thrown + ResizedImage) \<Rightarrow> byte list \<Rightarrow> AppError + PredictionResult" where
  "classify decode imageBuffer =
     (case preprocessImage decode imageBuffer of
        Inl err \<Rightarrow> Inl err
      | Inr tensor \<Rightarrow> Inr (predict tensor))"

section \<open>The specification's wording, and examples\<close>

text \<open>What one call of the callback of \<open>buildResult\<close> does to \<open>(maxIdx, maxProb)\<close>.\<close>

definition pick :: "real list \<Rightarrow> nat \<Rightarrow> nat \<times> maxprob \<Rightarrow> nat \<times> maxprob" where
  "pick probs i st =
     (if exceeds (prob_at probs i) (snd st) then (i, Finite (prob_at probs i)) else st)"

text \<open>The 32-bit signed wrap-around of an integer, written with \<open>mod\<close>.\<close>

definition wrap32 :: "int \<Rightarrow> int" where
  "wrap32 x = (x + 2 ^ 31) mod 2 ^ 32 - 2 ^ 31"

text \<open>
  The seed as the specification words it: the stride \<open>max(1, floor(length / 256))\<close>, the
  values sampled with it, and one accumulation step
  \<open>hash = (hash << 5) - hash + round((value + 3) * 10000)\<close>, wrapping the shift and the sum.
\<close>

definition hash_stride :: "real list \<Rightarrow> nat" where
  "hash_stride tensor = max 1 (length tensor div 256)"

definition hash_samples :: "real list \<Rightarrow> real list" where
  "hash_samples tensor =
     map (\<lambda>j. tensor ! (j * hash_stride tensor))
       [0..<(length tensor + hash_stride tensor - 1) div hash_stride tensor]"

definition hash_step :: "int \<Rightarrow> real \<Rightarrow> int" where
  "hash_step hash v = wrap32 (wrap32 (hash * 2 ^ 5) - hash + Math_round ((v + 3) * 10000))"

text \<open>
  The state of the generator after one call, and the value of call number \<open>k + 1\<close> of a
  generator created in state \<open>s\<close>.
\<close>

definition rng_advance :: "int32 \<Rightarrow> int32" where
  "rng_advance s = snd (rng s)"

definition rng_call :: "int32 \<Rightarrow> nat \<Rightarrow> real" where
  "rng_call s k = fst (rng ((rng_advance ^^ k) s))"

text \<open>
  The brightness as the specification words it: the mean, over the 3 channels and the
  \<open>224 * 224\<close> positions, of \<open>value * std[c] + mean[c]\<close>.
\<close>

definition mean_brightness :: "real list \<Rightarrow> real" where
  "mean_brightness tensor =
     (\<Sum>c<3. \<Sum>i<224 * 224.
         tensor ! (c * (224 * 224) + i) * IMAGENET_STD ! c + IMAGENET_MEAN ! c)
       / (3 * (224 * 224))"

text \<open>
  The tensor of a uniform gray image of brightness \<open>g\<close>: every value of plane \<open>c\<close> is
  \<open>(g - mean[c]) / std[c]\<close>.
\<close>

definition uniform_tensor :: "real \<Rightarrow> PreprocessedImage" where
  "uniform_tensor g =
     \<lparr>data = map (\<lambda>k. (g - IMAGENET_MEAN ! (k div (224 * 224)))
                        / IMAGENET_STD ! (k div (224 * 224)))
               [0..<3 * (224 * 224)],
      channels = 3, height = 224, width = 224\<rparr>"

text \<open>The mean of channel \<open>c\<close> of an interleaved RGB buffer.\<close>

definition channel_mean :: "byte list \<Rightarrow> nat \<Rightarrow> real" where
  "channel_mean pixels c =
     (\<Sum>j<length pixels div 3. real (unat (pixels ! (j * 3 + c)))) / real (length pixels div 3)"

text \<open>The buffer of 224 by 224 pixels of the gray level 3.\<close>

definition gray3 :: "byte list" where
  "gray3 = replicate (224 * 224 * 3) 3"

text \<open>
  A decoder for the examples: it rejects the empty buffer and resolves with a black image of
  256 by 256 pixels for any other.
\<close>

definition blank_resized :: ResizedImage where
  "blank_resized =
     \<lparr>resized_data = replicate (256 * 256 * 3) 0, info_width = 256, info_height = 256\<rparr>"

definition sample_decode :: "byte list \<Rightarrow> thrown + ResizedImage" where
  "sample_decode imageBuffer =
     (if imageBuffer = [] then Inl (ThrownError ''Input buffer is empty'') else Inr blank_resized)"

section \<open>Loops as folds\<close>

lemma stride_bound:
  fixes k n step :: nat
  assumes "0 < step"
  shows "k < (n + step - 1) div step \<longleftrightarrow> k * step < n"
proof -
  have "k < (n + step - 1) div step \<longleftrightarrow> Suc k \<le> (n + step - 1) div step" by auto
  also have "\<dots> \<longleftrightarrow> Suc k * step \<le> n + step - 1"
    using assms by (simp add: less_eq_div_iff_mult_less_eq)
  also have "\<dots> \<longleftrightarrow> k * step < n" using assms by auto
  finally show ?thesis .
qed

lemma for_loop_stride:
  assumes "0 < step"
  shows "for_loop (k * step) n step body s
           = fold (\<lambda>j. body (j * step)) [k..<(n + step - 1) div step] s"
proof (induction "(n + step - 1) div step - k" arbitrary: k s)
  case 0
  then have "\<not> k < (n + step - 1) div step" by simp
  then have "\<not> k * step < n" using assms stride_bound by blast
  then show ?case using 0 by (simp add: for_loop.simps [of "k * step"])
next
  case (Suc d)
  then have lt: "k < (n + step - 1) div step" by simp
  then have "k * step < n" using assms stride_bound by blast
  then have "for_loop (k * step) n step body s
               = for_loop (Suc k * step) n step body (body (k * step) s)"
    using assms by (simp add: for_loop.simps [of "k * step"] add.commute)
  also have "\<dots> = fold (\<lambda>j. body (j * step)) [Suc k..<(n + step - 1) div step]
                       (body (k * step) s)"
    using Suc by (intro Suc.hyps(1)) simp
  finally show ?case using lt by (simp add: upt_conv_Cons)
qed

lemma for_loop_unit: "for_loop 0 n 1 body s = fold body [0..<n] s"
  using for_loop_stride [of 1 0 n body s] by simp

lemma for_loop_three: "for_loop 0 (3 * m) 3 body s = fold (\<lambda>j. body (j * 3)) [0..<m] s"
proof -
  have "(3 * m + 3 - 1) div 3 = m" by simp
  then show ?thesis using for_loop_stride [of 3 0 "3 * m" body s] by simp
qed

section \<open>The result builder\<close>

lemma classes_length: "length TURBIDITY_CLASSES = 6"
  by (simp add: TURBIDITY_CLASSES_def)

lemma zip_classes_snd:
  "map snd (zip TURBIDITY_CLASSES [0..<length TURBIDITY_CLASSES]) = [0..<6]"
  by (simp add: classes_length)

lemma zip_classes_out:
  "map (\<lambda>(cls, i). f cls i) (zip TURBIDITY_CLASSES [0..<length TURBIDITY_CLASSES])
     = map (\<lambda>i. f (TURBIDITY_CLASSES ! i) i) [0..<6]"
proof -
  have "zip TURBIDITY_CLASSES [0..<length TURBIDITY_CLASSES]
          = map (\<lambda>i. (TURBIDITY_CLASSES ! i, i)) [0..<6]"
    by (rule nth_equalityI) (simp_all add: classes_length)
  then show ?thesis by (simp add: comp_def)
qed

lemma buildResult_map_state:
  "fst (buildResult_map probs pairs st) = fold (pick probs) (map snd pairs) st"
  by (induction probs pairs st rule: buildResult_map.induct)
     (auto simp: pick_def Let_def split: prod.splits)

lemma buildResult_map_out:
  "snd (buildResult_map probs pairs st)
     = map (\<lambda>(cls, i). \<lparr>className = cls, label = TURBIDITY_LABELS cls,
                           probability = prob_at probs i\<rparr>) pairs"
  by (induction probs pairs st rule: buildResult_map.induct)
     (auto simp: Let_def split: prod.splits)

text \<open>
  After the indices \<open>0..n\<close> the pair holds the first index of the greatest value seen, and
  that value.
\<close>

lemma pick_scan:
  "fold (pick probs) [0..<Suc n] (0, NegInfinity) = (k, m) \<Longrightarrow>
     k \<le> n \<and> m = Finite (prob_at probs k)
     \<and> (\<forall>j\<le>n. prob_at probs j \<le> prob_at probs k)
     \<and> (\<forall>j<k. prob_at probs j < prob_at probs k)"
proof (induction n arbitrary: k m)
  case 0
  then show ?case by (simp add: pick_def)
next
  case (Suc n)
  obtain k0 m0 where st: "fold (pick probs) [0..<Suc n] (0, NegInfinity) = (k0, m0)"
    by (cases "fold (pick probs) [0..<Suc n] (0, NegInfinity)")
  note ih = Suc.IH [OF st]
  have step: "pick probs (Suc n) (k0, m0) = (k, m)"
    using Suc.prems st by simp
  show ?case
  proof (cases "prob_at probs k0 < prob_at probs (Suc n)")
    case True
    then have "k = Suc n" "m = Finite (prob_at probs (Suc n))"
      using step ih by (auto simp: pick_def)
    moreover have "\<forall>j\<le>Suc n. prob_at probs j \<le> prob_at probs (Suc n)"
      using ih True by (metis le_Suc_eq less_eq_real_def order_trans)
    moreover have "\<forall>j<Suc n. prob_at probs j < prob_at probs (Suc n)"
      using ih True by (metis less_Suc_eq_le order_le_less_trans)
    ultimately show ?thesis by simp
  next
    case False
    then have "k = k0" "m = m0"
      using step ih by (auto simp: pick_def)
    moreover have "\<forall>j\<le>Suc n. prob_at probs j \<le> prob_at probs k0"
      using ih False by (metis le_Suc_eq not_less)
    ultimately show ?thesis using ih by simp
  qed
qed

lemma buildResult_first_max:
  assumes "length probs = 6"
  shows "\<exists>k<6. (\<forall>j<6. probs ! j \<le> probs ! k) \<and> (\<forall>j<k. probs ! j < probs ! k)
           \<and> buildResult probs =
               \<lparr>predictedClass = TURBIDITY_CLASSES ! k,
                result_label = TURBIDITY_LABELS (TURBIDITY_CLASSES ! k),
                confidence = Finite (probs ! k),
                ntuRange = NTU_RANGES (TURBIDITY_CLASSES ! k),
                probabilities =
                  map (\<lambda>i. \<lparr>className = TURBIDITY_CLASSES ! i,
                             label = TURBIDITY_LABELS (TURBIDITY_CLASSES ! i),
                             probability = probs ! i\<rparr>) [0..<6]\<rparr>"
proof -
  let ?z = "zip TURBIDITY_CLASSES [0..<length TURBIDITY_CLASSES]"
  obtain k m out where run: "buildResult_map probs ?z (0, NegInfinity) = ((k, m), out)"
    by (metis surj_pair)
  have at: "prob_at probs j = probs ! j" if "j < 6" for j
    using that assms by (simp add: prob_at_def)
  have "fold (pick probs) [0..<Suc 5] (0, NegInfinity) = (k, m)"
    using buildResult_map_state [of probs ?z "(0, NegInfinity)"] run
    by (simp add: zip_classes_snd eval_nat_numeral)
  from pick_scan [OF this]
  have k: "k \<le> 5" and m: "m = Finite (prob_at probs k)"
    and ge: "\<forall>j\<le>5. prob_at probs j \<le> prob_at probs k"
    and lt: "\<forall>j<k. prob_at probs j < prob_at probs k"
    by simp_all
  have k6: "k < 6" using k by simp
  have "\<forall>j<6. probs ! j \<le> probs ! k"
  proof (intro allI impI)
    fix j :: nat
    assume j: "j < 6"
    then have "j \<le> 5" by simp
    then have "prob_at probs j \<le> prob_at probs k" using ge by blast
    then show "probs ! j \<le> probs ! k" using at j k6 by simp
  qed
  moreover have "\<forall>j<k. probs ! j < probs ! k"
  proof (intro allI impI)
    fix j :: nat
    assume j: "j < k"
    then have "prob_at probs j < prob_at probs k" using lt by blast
    moreover have "j < 6" using j k6 by simp
    ultimately show "probs ! j < probs ! k" using at k6 by simp
  qed
  moreover have "out = map (\<lambda>i. \<lparr>className = TURBIDITY_CLASSES ! i,
                             label = TURBIDITY_LABELS (TURBIDITY_CLASSES ! i),
                             probability = probs ! i\<rparr>) [0..<6]"
  proof -
    have "out = map (\<lambda>i. \<lparr>className = TURBIDITY_CLASSES ! i,
                             label = TURBIDITY_LABELS (TURBIDITY_CLASSES ! i),
                             probability = prob_at probs i\<rparr>) [0..<6]"
      using buildResult_map_out [of probs ?z "(0, NegInfinity)"] run
      by (simp add: zip_classes_out)
    also have "\<dots> = map (\<lambda>i. \<lparr>className = TURBIDITY_CLASSES ! i,
                             label = TURBIDITY_LABELS (TURBIDITY_CLASSES ! i),
                             probability = probs ! i\<rparr>) [0..<6]"
      by (rule map_cong) (simp_all add: at)
    finally show ?thesis .
  qed
  moreover have "buildResult probs =
      \<lparr>predictedClass = TURBIDITY_CLASSES ! k,
       result_label = TURBIDITY_LABELS (TURBIDITY_CLASSES ! k),
       confidence = m, ntuRange = NTU_RANGES (TURBIDITY_CLASSES ! k),
       probabilities = out\<rparr>"
    using run by (simp add: buildResult_def Let_def)
  ultimately show ?thesis using k6 m at by auto
qed

text \<open>
  C7. For a vector of six probabilities, \<open>buildResult\<close> predicts the class at the first
  index \<open>k\<close> of the greatest probability (every probability is at most the one at \<open>k\<close>, every
  earlier one strictly smaller, so the earlier of two equal maxima wins); the confidence is
  that probability, label and NTU range are those of the predicted class, and the list of
  probabilities has the six classes in canonical order, each with its own probability.
\<close>

theorem buildResult_argmax_first:
  assumes "length probs = 6"
  shows "\<exists>k<6. (\<forall>j<6. probs ! j \<le> probs ! k) \<and> (\<forall>j<k. probs ! j < probs ! k)
           \<and> buildResult probs =
               \<lparr>predictedClass = TURBIDITY_CLASSES ! k,
                result_label = TURBIDITY_LABELS (TURBIDITY_CLASSES ! k),
                confidence = Finite (probs ! k),
                ntuRange = NTU_RANGES (TURBIDITY_CLASSES ! k),
                probabilities =
                  map (\<lambda>i. \<lparr>className = TURBIDITY_CLASSES ! i,
                             label = TURBIDITY_LABELS (TURBIDITY_CLASSES ! i),
                             probability = probs ! i\<rparr>) [0..<6]\<rparr>"
  using assms by (rule buildResult_first_max)

text \<open>
  The theorem at a vector whose greatest probability stands at the indices 1 and 2.
\<close>

theorem buildResult_argmax_first_witness:
  "length [0.1, 0.4, 0.4, 0.05, 0.03, 0.02 :: real] = 6
   \<and> (\<exists>k<6. (\<forall>j<6. [0.1, 0.4, 0.4, 0.05, 0.03, 0.02 :: real] ! j
                        \<le> [0.1, 0.4, 0.4, 0.05, 0.03, 0.02] ! k)
         \<and> (\<forall>j<k. [0.1, 0.4, 0.4, 0.05, 0.03, 0.02 :: real] ! j
                      < [0.1, 0.4, 0.4, 0.05, 0.03, 0.02] ! k)
         \<and> buildResult [0.1, 0.4, 0.4, 0.05, 0.03, 0.02] =
               \<lparr>predictedClass = TURBIDITY_CLASSES ! k,
                result_label = TURBIDITY_LABELS (TURBIDITY_CLASSES ! k),
                confidence = Finite ([0.1, 0.4, 0.4, 0.05, 0.03, 0.02] ! k),
                ntuRange = NTU_RANGES (TURBIDITY_CLASSES ! k),
                probabilities =
                  map (\<lambda>i. \<lparr>className = TURBIDITY_CLASSES ! i,
                             label = TURBIDITY_LABELS (TURBIDITY_CLASSES ! i),
                             probability = [0.1, 0.4, 0.4, 0.05, 0.03, 0.02] ! i\<rparr>)
                    [0..<6]\<rparr>)"
  using buildResult_argmax_first [of "[0.1, 0.4, 0.4, 0.05, 0.03, 0.02]"] by simp

section \<open>The seed\<close>

lemma sint_ToInt32: "sint (ToInt32 x) = wrap32 x"
  by (simp add: ToInt32_def wrap32_def int_word_sint)

lemma sint_shl5: "sint (push_bit 5 (h :: int32)) = wrap32 (sint h * 2 ^ 5)"
proof -
  have "push_bit 5 h = ToInt32 (sint h * 2 ^ 5)"
    by (simp add: ToInt32_def push_bit_eq_mult)
  then show ?thesis by (simp add: sint_ToInt32)
qed

lemma hash_fold:
  "sint (fold (\<lambda>j hash. ToInt32 (sint (push_bit 5 hash) - sint hash
                                        + Math_round ((tensor ! (j * step) + 3) * 10000))) js h)
     = foldl hash_step (sint h) (map (\<lambda>j. tensor ! (j * step)) js)"
  by (induction js arbitrary: h) (simp_all add: sint_ToInt32 sint_shl5 hash_step_def)

text \<open>
  C5. \<open>hashTensor\<close> samples the tensor with the stride \<open>max(1, floor(length / 256))\<close>,
  accumulates \<open>hash = (hash << 5) - hash + round((value + 3) * 10000)\<close> from 0 with the 32-bit
  signed wrap-around at each step, and returns the absolute value, which is not negative.
  The seed is a function of the tensor alone.
\<close>

theorem hashTensor_spec:
  "hashTensor tensor = \<bar>foldl hash_step 0 (hash_samples tensor)\<bar> \<and> 0 \<le> hashTensor tensor"
proof -
  have pos: "0 < hash_stride tensor" by (simp add: hash_stride_def)
  have "for_loop 0 (length tensor) (hash_stride tensor)
             (\<lambda>i hash. ToInt32 (sint (push_bit 5 hash) - sint hash
                                        + Math_round ((tensor ! i + 3) * 10000))) (0 :: int32)
        = fold (\<lambda>j hash. ToInt32 (sint (push_bit 5 hash) - sint hash
                                        + Math_round ((tensor ! (j * hash_stride tensor) + 3) * 10000)))
            [0..<(length tensor + hash_stride tensor - 1) div hash_stride tensor] 0"
    using for_loop_stride [OF pos, of 0] by simp
  then have "sint (for_loop 0 (length tensor) (hash_stride tensor)
             (\<lambda>i hash. ToInt32 (sint (push_bit 5 hash) - sint hash
                                        + Math_round ((tensor ! i + 3) * 10000))) (0 :: int32))
        = foldl hash_step 0 (hash_samples tensor)"
    by (simp only: hash_fold hash_samples_def sint_0)
  then show ?thesis
    by (simp add: hashTensor_def Let_def hash_stride_def)
qed

section \<open>The generator and the logits\<close>

lemma unsigned_real_range:
  fixes w :: int32
  shows "0 \<le> (unsigned w :: real) \<and> (unsigned w :: real) < 4294967296"
proof -
  have "unat w < 4294967296"
    using unsigned_less [of w, where ?'a = nat] by simp
  then have "real (unat w) < real 4294967296"
    by (simp only: of_nat_less_iff)
  then have hi: "(unsigned w :: real) < 4294967296"
    by simp
  have "0 \<le> real (unat w)"
    by (rule of_nat_0_le_iff)
  then have "0 \<le> (unsigned w :: real)"
    by simp
  with hi show ?thesis by blast
qed

lemma rng_range: "0 \<le> fst (rng s) \<and> fst (rng s) < 1"
  by (simp add: rng_def Let_def unsigned_real_range)

lemma fold_add_sum:
  fixes f :: "nat \<Rightarrow> real"
  shows "fold (\<lambda>i acc. acc + f i) [0..<n] a = a + (\<Sum>i<n. f i)"
  by (induction n) simp_all

lemma logits_map_calls:
  "logits_map center idxs s =
     (map (\<lambda>k. - real_of_int \<bar>int (idxs ! k) - center\<bar> * 1.8 + (rng_call s k - 0.5) * 0.3)
        [0..<length idxs],
      (rng_advance ^^ length idxs) s)"
proof (induction idxs arbitrary: s)
  case Nil
  then show ?case by simp
next
  case (Cons i rest)
  have shift: "rng_call (rng_advance s) k = rng_call s (Suc k)" for k
    by (simp add: rng_call_def funpow_swap1)
  have "map (\<lambda>k. - real_of_int \<bar>int ((i # rest) ! k) - center\<bar> * 1.8 + (rng_call s k - 0.5) * 0.3)
          [0..<length (i # rest)]
        = (- real_of_int \<bar>int i - center\<bar> * 1.8 + (rng_call s 0 - 0.5) * 0.3)
          # map (\<lambda>k. - real_of_int \<bar>int (rest ! k) - center\<bar> * 1.8
                         + (rng_call (rng_advance s) k - 0.5) * 0.3) [0..<length rest]"
    by (simp add: upt_conv_Cons map_Suc_upt [symmetric] shift del: upt_Suc)
  moreover have "rng s = (rng_call s 0, rng_advance s)"
    by (simp add: rng_call_def rng_advance_def)
  ultimately show ?case
    by (simp add: Cons.IH Let_def funpow_swap1 del: upt_Suc)
qed

section \<open>Brightness and centre\<close>

lemma predict_brightness_sum:
  "predict_brightness img =
     (\<Sum>c<3. (\<Sum>i<height img * width img.
         data img ! (c * (height img * width img) + i) * [0.229, 0.224, 0.225] ! c
           + [0.485, 0.456, 0.406] ! c) / real (height img * width img)) / 3"
  by (simp only: predict_brightness_def Let_def for_loop_unit fold_add_sum add_0)

lemma predict_brightness_mean:
  assumes "height img = 224" "width img = 224"
  shows "predict_brightness img = mean_brightness (data img)"
  unfolding predict_brightness_sum mean_brightness_def assms IMAGENET_STD_def IMAGENET_MEAN_def
  by (simp only: sum_divide_distrib [symmetric] divide_divide_eq_left of_nat_mult of_nat_numeral mult.commute)

lemma center_of_range: "0 \<le> center_of b \<and> center_of b \<le> 5"
  by (simp add: center_of_def classes_length Let_def)

lemma center_of_clamp: "center_of b = min 5 (max 0 (Math_round ((1 - b) * 5)))"
  by (simp add: center_of_def classes_length Let_def)

section \<open>Softmax\<close>

lemma foldl_add_sum_list:
  fixes a :: real
  shows "foldl (\<lambda>a b. a + b) a xs = a + sum_list xs"
  by (induction xs arbitrary: a) simp_all

lemma sum_list_exp_pos:
  fixes xs :: "real list"
  shows "xs \<noteq> [] \<Longrightarrow> 0 < (\<Sum>u\<leftarrow>xs. exp (u - m))"
proof (induction xs)
  case Nil
  then show ?case by simp
next
  case (Cons x xs)
  have "0 < exp (x - m)" by simp
  moreover have "0 \<le> (\<Sum>u\<leftarrow>xs. exp (u - m))"
    by (rule sum_list_nonneg) auto
  ultimately have "0 < exp (x - m) + (\<Sum>u\<leftarrow>xs. exp (u - m))"
    by (rule add_pos_nonneg)
  then show ?case by simp
qed

lemma softmax_closed:
  assumes "xs \<noteq> []"
  shows "softmax xs
           = map (\<lambda>v. exp (v - Max (set xs)) / (\<Sum>u\<leftarrow>xs. exp (u - Max (set xs)))) xs"
proof -
  obtain l ls where xs: "xs = l # ls"
    using assms by (cases xs) auto
  have mx: "fold max ls l = Max (set xs)"
    unfolding xs by (rule Max.set_eq_fold [symmetric])
  have "softmax xs
          = map (\<lambda>v. v / sum_list (map (\<lambda>v. exp (v - Max (set xs))) xs))
              (map (\<lambda>v. exp (v - Max (set xs))) xs)"
    unfolding xs softmax.simps Let_def foldl_add_sum_list mx [unfolded xs] by simp
  then show ?thesis by (simp add: comp_def)
qed

lemma softmax_length: "length (softmax xs) = length xs"
  by (cases xs) (simp_all add: Let_def)

lemma sum_list_divide:
  fixes s :: real
  shows "(\<Sum>v\<leftarrow>xs. f v / s) = (\<Sum>v\<leftarrow>xs. f v) / s"
  by (induction xs) (simp_all add: add_divide_distrib)

lemma softmax_sum: "xs \<noteq> [] \<Longrightarrow> sum_list (softmax xs) = 1"
proof -
  assume ne: "xs \<noteq> []"
  define s where "s = (\<Sum>u\<leftarrow>xs. exp (u - Max (set xs)))"
  have "0 < s" unfolding s_def using ne by (rule sum_list_exp_pos)
  moreover have "sum_list (softmax xs) = s / s"
    unfolding softmax_closed [OF ne] s_def [symmetric]
    by (simp add: sum_list_divide comp_def s_def)
  ultimately show ?thesis by simp
qed

lemma softmax_nth:
  assumes "k < length xs"
  shows "softmax xs ! k = exp (xs ! k - Max (set xs)) / (\<Sum>u\<leftarrow>xs. exp (u - Max (set xs)))"
proof -
  have ne: "xs \<noteq> []" using assms by auto
  show ?thesis
    by (simp only: softmax_closed [OF ne] nth_map [OF assms])
qed

lemma softmax_strict_mono:
  assumes "i < length xs" "j < length xs" "xs ! i < xs ! j"
  shows "softmax xs ! i < softmax xs ! j"
proof -
  have ne: "xs \<noteq> []" using assms by auto
  have pos: "0 < (\<Sum>u\<leftarrow>xs. exp (u - Max (set xs)))"
    using ne by (rule sum_list_exp_pos)
  have "exp (xs ! i - Max (set xs)) < exp (xs ! j - Max (set xs))"
    using assms(3) by simp
  then have "exp (xs ! i - Max (set xs)) / (\<Sum>u\<leftarrow>xs. exp (u - Max (set xs)))
               < exp (xs ! j - Max (set xs)) / (\<Sum>u\<leftarrow>xs. exp (u - Max (set xs)))"
    using pos by (rule divide_strict_right_mono)
  then show ?thesis
    by (simp only: softmax_nth [OF assms(1)] softmax_nth [OF assms(2)])
qed

section \<open>The predicted class\<close>

lemma jitter_bound: "\<bar>(rng_call s k - 0.5) * 0.3\<bar> \<le> 0.15"
proof -
  have "0 \<le> rng_call s k \<and> rng_call s k < 1"
    unfolding rng_call_def by (rule rng_range)
  then show ?thesis by (simp add: abs_le_iff field_simps)
qed

lemma far_logit:
  fixes d e x :: real
  shows "1 \<le> d \<Longrightarrow> \<bar>e\<bar> \<le> 0.15 \<Longrightarrow> x = - d * 1.8 + e \<Longrightarrow> x \<le> - 1.65"
  by (simp add: abs_le_iff field_simps)

lemma near_logit:
  fixes e x :: real
  shows "\<bar>e\<bar> \<le> 0.15 \<Longrightarrow> x = - 0 * 1.8 + e \<Longrightarrow> - 0.15 \<le> x"
  by (simp add: abs_le_iff field_simps)

lemma logit_gap:
  fixes x y :: real
  shows "x \<le> - 1.65 \<Longrightarrow> - 0.15 \<le> y \<Longrightarrow> x < y"
  by (simp add: field_simps)

lemma predict_logits_calls:
  "predict_logits img =
     (map (\<lambda>i. - real_of_int \<bar>int i - predict_center img\<bar> * 1.8
                  + (rng_call (createRng (hashTensor (data img))) i - 0.5) * 0.3) [0..<6],
      (rng_advance ^^ 6) (createRng (hashTensor (data img))))"
proof -
  have "map (\<lambda>k. f ([0..<6] ! k) k) [0..<6] = map (\<lambda>k. f k k) [0..<6]" for f :: "nat \<Rightarrow> nat \<Rightarrow> real"
    by (rule map_cong) simp_all
  then show ?thesis
    unfolding predict_logits_def logits_map_calls classes_length by simp
qed

lemma logit_peak:
  assumes "j < 6" "int j \<noteq> predict_center img"
  shows "fst (predict_logits img) ! j < fst (predict_logits img) ! nat (predict_center img)"
proof -
  let ?c = "predict_center img"
  let ?s = "createRng (hashTensor (data img))"
  have c: "0 \<le> ?c" "?c \<le> 5"
    using center_of_range [of "predict_brightness img"] by (simp_all add: predict_center_def)
  then have cn: "nat ?c < 6" by simp
  have at: "fst (predict_logits img) ! i
              = - real_of_int \<bar>int i - ?c\<bar> * 1.8 + (rng_call ?s i - 0.5) * 0.3" if "i < 6" for i
    using that by (simp add: predict_logits_calls)
  have "1 \<le> \<bar>int j - ?c\<bar>" using assms(2) by simp
  then have "1 \<le> real_of_int \<bar>int j - ?c\<bar>" by linarith
  then have "fst (predict_logits img) ! j \<le> - 1.65"
    using jitter_bound [of ?s j] at [OF assms(1)] by (rule far_logit)
  moreover have "int (nat ?c) - ?c = 0" using c by simp
  then have "fst (predict_logits img) ! nat ?c
               = - 0 * 1.8 + (rng_call ?s (nat ?c) - 0.5) * 0.3"
    using at [OF cn] by simp
  with jitter_bound [of ?s "nat ?c"]
  have "- 0.15 \<le> fst (predict_logits img) ! nat ?c" by (rule near_logit)
  ultimately show ?thesis by (rule logit_gap)
qed

lemma predict_picks_center:
  "predictedClass (predict img) = TURBIDITY_CLASSES ! nat (predict_center img)"
proof -
  let ?c = "predict_center img"
  let ?ls = "fst (predict_logits img)"
  have c: "0 \<le> ?c" "?c \<le> 5"
    using center_of_range [of "predict_brightness img"] by (simp_all add: predict_center_def)
  then have cn: "nat ?c < 6" by simp
  have len: "length ?ls = 6" by (simp add: predict_logits_calls)
  then have plen: "length (softmax ?ls) = 6" by (simp add: softmax_length)
  from buildResult_first_max [OF plen]
  obtain k where k: "k < 6" and ge: "\<forall>j<6. softmax ?ls ! j \<le> softmax ?ls ! k"
    and res: "predictedClass (buildResult (softmax ?ls)) = TURBIDITY_CLASSES ! k"
    by auto
  have "k = nat ?c"
  proof (rule ccontr)
    assume ne: "k \<noteq> nat ?c"
    then have "int k \<noteq> ?c" using c by auto
    then have "?ls ! k < ?ls ! nat ?c" using k by (rule logit_peak [rotated])
    then have "softmax ?ls ! k < softmax ?ls ! nat ?c"
      using k cn len by (intro softmax_strict_mono) simp_all
    moreover have "softmax ?ls ! nat ?c \<le> softmax ?ls ! k" using ge cn by blast
    ultimately show False by simp
  qed
  then show ?thesis using res by (simp add: predict_def)
qed

section \<open>Uniform tensors\<close>

lemma uniform_tensor_shape:
  "height (uniform_tensor g) = 224" "width (uniform_tensor g) = 224"
  "length (data (uniform_tensor g)) = 3 * 224 * 224"
  by (simp_all add: uniform_tensor_def del: upt_rec_numeral)

lemma uniform_tensor_nth:
  assumes "c < 3" "i < 224 * 224"
  shows "data (uniform_tensor g) ! (c * (224 * 224) + i) * IMAGENET_STD ! c + IMAGENET_MEAN ! c = g"
proof -
  have lt: "c * (224 * 224) + i < 3 * (224 * 224)"
    using assms by simp
  have dv: "(c * (224 * 224) + i) div (224 * 224) = c"
    using assms by simp
  have nz: "IMAGENET_STD ! c \<noteq> 0"
    using assms(1) by (auto simp: IMAGENET_STD_def less_Suc_eq numeral_3_eq_3)
  have "data (uniform_tensor g) ! (c * (224 * 224) + i)
          = (g - IMAGENET_MEAN ! c) / IMAGENET_STD ! c"
    unfolding uniform_tensor_def using lt dv by (simp del: upt_rec_numeral)
  then show ?thesis using nz by simp
qed

lemma uniform_brightness: "predict_brightness (uniform_tensor g) = g"
proof -
  have "mean_brightness (data (uniform_tensor g)) = (\<Sum>c<(3::nat). \<Sum>i<(224 * 224 :: nat). g) / (3 * (224 * 224))"
    unfolding mean_brightness_def
    by (intro arg_cong2 [where f = "(/)"] sum.cong refl uniform_tensor_nth)
       (simp_all only: lessThan_iff)
  also have "\<dots> = g" by simp
  finally show ?thesis
    by (simp add: predict_brightness_mean uniform_tensor_shape)
qed

section \<open>The scorer\<close>



text \<open>
  C6. For a tensor of the shape (3, 224, 224), every jitter term \<open>(rng() - 0.5) * 0.3\<close> has
  magnitude at most 0.15, the centre index lies in \<open>0..5\<close>, and the class \<open>predict\<close> returns is
  the class at the centre index.
\<close>

theorem predict_class_is_center:
  assumes "height img = 224" "width img = 224" "length (data img) = 3 * 224 * 224"
  shows "(\<forall>k. \<bar>(rng_call (createRng (hashTensor (data img))) k - 0.5) * 0.3\<bar> \<le> 0.15)
       \<and> 0 \<le> predict_center img \<and> predict_center img \<le> 5
       \<and> predictedClass (predict img) = TURBIDITY_CLASSES ! nat (predict_center img)"
  using jitter_bound center_of_range [of "predict_brightness img"] predict_picks_center [of img]
  by (simp add: predict_center_def)

text \<open>The theorem at the tensor of the uniform mid-gray image.\<close>

theorem predict_class_is_center_witness:
  "height (uniform_tensor (1 / 2)) = 224 \<and> width (uniform_tensor (1 / 2)) = 224
   \<and> length (data (uniform_tensor (1 / 2))) = 3 * 224 * 224
   \<and> predictedClass (predict (uniform_tensor (1 / 2)))
       = TURBIDITY_CLASSES ! nat (predict_center (uniform_tensor (1 / 2)))"
  using predict_class_is_center [OF uniform_tensor_shape, of "1 / 2"]
    uniform_tensor_shape [of "1 / 2"]
  by blast

lemma center_of_antitone: "b1 \<le> b2 \<Longrightarrow> center_of b2 \<le> center_of b1"
proof -
  assume "b1 \<le> b2"
  then have "Math_round ((1 - b2) * 5) \<le> Math_round ((1 - b1) * 5)"
    unfolding Math_round_def by (intro floor_mono) simp
  then show ?thesis unfolding center_of_clamp by linarith
qed

text \<open>
  C3. The centre index does not rise with the brightness, it falls: the tensor of the
  uniform black image has brightness 0 and centre 5 (\<open>clear\<close>), the tensor of the uniform
  white image has brightness 1 and centre 0 (\<open>ultra_cloudy\<close>). The comments of \<open>predict\<close>
  say the opposite (``darker = cloudier = lower index'').
\<close>

theorem center_falls_with_brightness:
  "predict_brightness (uniform_tensor 0) = 0 \<and> predict_brightness (uniform_tensor 1) = 1
   \<and> predict_center (uniform_tensor 0) = 5 \<and> predict_center (uniform_tensor 1) = 0"
  by (simp add: predict_center_def uniform_brightness center_of_clamp Math_round_def)

section \<open>The centre crop\<close>

lemma Buffer_copy_row:
  assumes "0 < n" "d + n \<le> length target" "so + n \<le> length source"
  shows "Buffer_copy source target (int d) (int so) (int so + int n)
           = Inr (take d target @ take n (drop so source) @ drop (d + n) target)"
proof -
  have "min (min n (length target - d)) (length source - so) = n"
    using assms by simp
  then show ?thesis
    using assms by (simp add: Buffer_copy_def Let_def)
qed

lemma row_nth:
  assumes "d + n \<le> length target" "so + n \<le> length source" "k < length target"
  shows "(take d target @ take n (drop so source) @ drop (d + n) target) ! k
           = (if d \<le> k \<and> k < d + n then source ! (so + (k - d)) else target ! k)"
proof -
  have m: "min (length source - so) n = n" "min (length target) d = d"
    using assms by simp_all
  have "so + (k - d) < length source" if "k < d + n" "d \<le> k"
    using that assms by simp
  then show ?thesis
    using assms by (auto simp: nth_append m)
qed

lemma row_length:
  assumes "d + n \<le> length target" "so + n \<le> length source"
  shows "length (take d target @ take n (drop so source) @ drop (d + n) target) = length target"
  using assms by simp

lemma row_index:
  fixes k y :: nat
  shows "(y * 672 \<le> k \<and> k < y * 672 + 672) \<longleftrightarrow> k div 672 = y"
  by (auto simp: div_nat_eqI)

lemma crop_rows_256:
  assumes "info_width r = 256" "length (resized_data r) = 196608"
    and "\<forall>y\<in>set ys. y < 224" "length cropped = 150528"
  shows "\<exists>res. crop_rows r 16 16 ys cropped = Inr res \<and> length res = 150528
           \<and> (\<forall>k<150528. res ! k =
                 (if k div 672 \<in> set ys
                  then resized_data r ! (((16 + k div 672) * 256 + 16) * 3 + k mod 672)
                  else cropped ! k))"
  using assms(3,4)
proof (induction ys arbitrary: cropped)
  case Nil
  then show ?case by simp
next
  case (Cons y ys)
  let ?src = "resized_data r"
  let ?so = "((16 + y) * 256 + 16) * 3"
  let ?row = "take (y * 672) cropped @ take 672 (drop ?so ?src) @ drop (y * 672 + 672) cropped"
  have y: "y < 224" using Cons.prems(1) by simp
  have d: "y * 672 + 672 \<le> length cropped" using y Cons.prems(2) by simp
  have s: "?so + 672 \<le> length ?src" using y assms(2) by simp
  have e1: "((16 + int y) * info_width r + 16) * 3 = int ?so"
    by (simp add: assms(1))
  have e2: "int (y * TARGET_SIZE * 3) = int (y * 672)"
    by (simp add: TARGET_SIZE_def)
  have e3: "int (TARGET_SIZE * 3) = int 672"
    by (simp add: TARGET_SIZE_def)
  have copy: "Buffer_copy ?src cropped (int (y * TARGET_SIZE * 3))
                    (((16 + int y) * info_width r + 16) * 3)
                    (((16 + int y) * info_width r + 16) * 3 + int (TARGET_SIZE * 3)) = Inr ?row"
    unfolding e1 e2 e3 by (rule Buffer_copy_row [OF _ d s]) simp
  have len: "length ?row = 150528"
    using row_length [OF d s] Cons.prems(2) by simp
  have "\<forall>y\<in>set ys. y < 224" using Cons.prems(1) by simp
  from Cons.IH [OF this len]
  obtain res where res: "crop_rows r 16 16 ys ?row = Inr res" "length res = 150528"
    and nth: "\<forall>k<150528. res ! k =
                 (if k div 672 \<in> set ys
                  then ?src ! (((16 + k div 672) * 256 + 16) * 3 + k mod 672)
                  else ?row ! k)"
    by blast
  have run: "crop_rows r 16 16 (y # ys) cropped = Inr res"
    using copy res(1) by (simp add: Let_def)
  have "res ! k = (if k div 672 \<in> set (y # ys)
                   then ?src ! (((16 + k div 672) * 256 + 16) * 3 + k mod 672)
                   else cropped ! k)" if k: "k < 150528" for k
  proof (cases "k div 672 \<in> set ys")
    case True
    then show ?thesis using nth k by simp
  next
    case False
    have kl: "k < length cropped" using k Cons.prems(2) by simp
    have "res ! k = ?row ! k" using nth k False by simp
    also have "\<dots> = (if y * 672 \<le> k \<and> k < y * 672 + 672
                       then ?src ! (?so + (k - y * 672)) else cropped ! k)"
      by (rule row_nth [OF d s kl])
    also have "\<dots> = (if k div 672 = y then ?src ! (?so + k mod 672) else cropped ! k)"
    proof (cases "k div 672 = y")
      case True
      then have "k - y * 672 = k mod 672"
        by (metis minus_div_mult_eq_mod)
      moreover have "y * 672 \<le> k \<and> k < y * 672 + 672"
        using True row_index [of y k] by blast
      ultimately show ?thesis using True by simp
    next
      case False
      then have "\<not> (y * 672 \<le> k \<and> k < y * 672 + 672)"
        using row_index [of y k] by blast
      then show ?thesis using False by auto
    qed
    finally show ?thesis using False by auto
  qed
  then show ?case using run res(2) by blast
qed

lemma pixel_index:
  fixes x y c :: nat
  assumes "x < 224" "c < 3"
  shows "((y * 224 + x) * 3 + c) div 672 = y" "((y * 224 + x) * 3 + c) mod 672 = x * 3 + c"
proof -
  have k: "(y * 224 + x) * 3 + c = y * 672 + (x * 3 + c)" by simp
  have lt: "x * 3 + c < 672" using assms by simp
  show "((y * 224 + x) * 3 + c) div 672 = y"
    unfolding k using lt by simp
  show "((y * 224 + x) * 3 + c) mod 672 = x * 3 + c"
    unfolding k using lt by simp
qed

lemma center_crop_pixels:
  assumes "info_width r = 256" "info_height r = 256" "length (resized_data r) = 256 * 256 * 3"
  shows "\<exists>cropped. center_crop r = Inr cropped \<and> length cropped = 224 * 224 * 3
           \<and> (\<forall>x<224. \<forall>y<224. \<forall>c<3.
                 cropped ! ((y * 224 + x) * 3 + c)
                   = resized_data r ! (((y + 16) * 256 + (x + 16)) * 3 + c))"
proof -
  have rows: "\<forall>y\<in>set [0..<224]. y < 224"
    by (simp del: upt_rec_numeral)
  have len0: "length (replicate 150528 (0 :: byte)) = 150528"
    by (simp only: length_replicate)
  have src: "length (resized_data r) = 196608"
    using assms(3) by simp
  from crop_rows_256 [OF assms(1) src rows len0]
  obtain res where run: "crop_rows r 16 16 [0..<224] (replicate 150528 0) = Inr res"
    and len: "length res = 150528"
    and nth: "\<forall>k<150528. res ! k =
                 (if k div 672 \<in> set [0..<224]
                  then resized_data r ! (((16 + k div 672) * 256 + 16) * 3 + k mod 672)
                  else replicate 150528 0 ! k)"
    by blast
  have "center_crop r = Inr res"
    using run assms(1,2)
    by (simp add: center_crop_def cropLeft_of_def cropTop_of_def TARGET_SIZE_def
          del: upt_rec_numeral)
  moreover have "res ! ((y * 224 + x) * 3 + c)
                   = resized_data r ! (((y + 16) * 256 + (x + 16)) * 3 + c)"
    if "x < 224" "y < 224" "c < 3" for x y c
  proof -
    let ?k = "(y * 224 + x) * 3 + c"
    have "?k < 150528" using that by simp
    moreover have "?k div 672 \<in> set [0..<224]"
      using that pixel_index(1) [of x c y]
      by (simp del: upt_rec_numeral)
    ultimately have "res ! ?k
        = resized_data r ! (((16 + ?k div 672) * 256 + 16) * 3 + ?k mod 672)"
      using nth by simp
    also have "\<dots> = resized_data r ! (((16 + y) * 256 + 16) * 3 + (x * 3 + c))"
      using that by (simp only: pixel_index)
    also have "((16 + y) * 256 + 16) * 3 + (x * 3 + c) = ((y + 16) * 256 + (x + 16)) * 3 + c"
      by simp
    finally show ?thesis .
  qed
  ultimately show ?thesis using len by auto
qed

section \<open>Rounding to doubles\<close>

lemma binade_bounds:
  assumes "x \<noteq> 0"
  shows "2 powi binade x \<le> \<bar>x\<bar> \<and> \<bar>x\<bar> < 2 powi (binade x + 1)"
proof (cases "1 \<le> \<bar>x\<bar>")
  case True
  let ?n = "\<lfloor>\<bar>x\<bar>\<rfloor>"
  have n: "0 < ?n" using True by linarith
  have b: "1 \<le> bitlen ?n" using n by (auto simp: bitlen_alt_def)
  from bitlen_bounds [OF n]
  have lo: "2 ^ nat (bitlen ?n - 1) \<le> ?n" and hi: "?n < 2 ^ nat (bitlen ?n)" by simp_all
  have e: "binade x = bitlen ?n - 1" using True by (simp add: binade_def)
  have "2 powi (bitlen ?n - 1) = (2::real) ^ nat (bitlen ?n - 1)"
    using b by (simp add: power_int_def)
  also have "\<dots> = real_of_int (2 ^ nat (bitlen ?n - 1))" by simp
  also have "\<dots> \<le> real_of_int ?n" using lo by (simp only: of_int_le_iff)
  also have "\<dots> \<le> \<bar>x\<bar>" by simp
  finally have 1: "2 powi binade x \<le> \<bar>x\<bar>" by (simp only: e)
  have "?n + 1 \<le> 2 ^ nat (bitlen ?n)" using hi by simp
  then have "real_of_int (?n + 1) \<le> real_of_int (2 ^ nat (bitlen ?n))"
    by (simp only: of_int_le_iff)
  then have "real_of_int ?n + 1 \<le> (2::real) ^ nat (bitlen ?n)" by simp
  moreover have "\<bar>x\<bar> < real_of_int ?n + 1" by linarith
  ultimately have "\<bar>x\<bar> < (2::real) ^ nat (bitlen ?n)" by linarith
  moreover have "2 powi (binade x + 1) = (2::real) ^ nat (bitlen ?n)"
    using b by (simp add: e power_int_def)
  ultimately show ?thesis using 1 by simp
next
  case False
  let ?a = "\<bar>x\<bar>"
  let ?c = "\<lceil>1 / ?a\<rceil>"
  have a: "0 < ?a" "?a < 1" using assms False by simp_all
  then have inv: "1 < 1 / ?a" by simp
  then have c: "0 < ?c - 1" by linarith
  let ?k = "bitlen (?c - 1)"
  have k: "1 \<le> ?k" using c by (auto simp: bitlen_alt_def)
  from bitlen_bounds [OF c]
  have lo: "2 ^ nat (?k - 1) \<le> ?c - 1" and hi: "?c - 1 < 2 ^ nat ?k" by simp_all
  have e: "binade x = - ?k" using False by (simp add: binade_def)
  have "?c \<le> 2 ^ nat ?k" using hi by simp
  then have "real_of_int ?c \<le> real_of_int (2 ^ nat ?k)" by (simp only: of_int_le_iff)
  then have "real_of_int ?c \<le> (2::real) ^ nat ?k" by simp
  moreover have "1 / ?a \<le> real_of_int ?c" by (rule le_of_int_ceiling)
  ultimately have "1 / ?a \<le> 2 ^ nat ?k" by linarith
  then have "1 / 2 ^ nat ?k \<le> ?a"
    using a(1) by (simp add: field_simps)
  moreover have "2 powi (- ?k) = 1 / (2::real) ^ nat ?k"
    using k by (simp add: power_int_def field_simps)
  ultimately have 1: "2 powi binade x \<le> ?a" by (simp only: e)
  have "real_of_int (2 ^ nat (?k - 1)) \<le> real_of_int (?c - 1)"
    using lo by (simp only: of_int_le_iff)
  then have "(2::real) ^ nat (?k - 1) \<le> real_of_int ?c - 1" by simp
  moreover have "real_of_int ?c - 1 < 1 / ?a" by linarith
  ultimately have "2 ^ nat (?k - 1) < 1 / ?a" by linarith
  then have "?a < 1 / 2 ^ nat (?k - 1)"
    using a(1) by (simp add: field_simps)
  moreover have "2 powi (- ?k + 1) = 1 / (2::real) ^ nat (?k - 1)"
  proof (cases "?k = 1")
    case True
    then show ?thesis by simp
  next
    case False
    then have "- ?k + 1 < 0" using k by simp
    then show ?thesis by (simp add: power_int_def field_simps nat_diff_distrib)
  qed
  ultimately show ?thesis using 1 by (simp only: e)
qed

lemma round_even_error: "\<bar>real_of_int (round_even y) - y\<bar> \<le> 1 / 2"
proof -
  have "real_of_int \<lfloor>y\<rfloor> \<le> y" "y < real_of_int \<lfloor>y\<rfloor> + 1" by linarith+
  then show ?thesis
    by (auto simp: round_even_def Let_def)
qed

lemma round_even_of_int: "round_even (real_of_int k) = k"
  by (simp add: round_even_def)

lemma fl_error:
  assumes "x \<noteq> 0"
  shows "\<bar>fl x - x\<bar> \<le> 2 powi (binade x - 53)"
proof -
  let ?u = "(2::real) powi (binade x - 52)"
  have u: "0 < ?u" by simp
  have "fl x - x = (real_of_int (round_even (x / ?u)) - x / ?u) * ?u"
    using assms u by (simp add: fl_def Let_def algebra_simps)
  then have "\<bar>fl x - x\<bar> = \<bar>real_of_int (round_even (x / ?u)) - x / ?u\<bar> * ?u"
    using u by (simp add: abs_mult)
  also have "\<dots> \<le> 1 / 2 * ?u"
    using round_even_error [of "x / ?u"] u by (intro mult_right_mono) simp_all
  also have "1 / 2 * ?u = 2 powi (binade x - 53)"
  proof -
    have "(2::real) powi (binade x - 52) = 2 powi ((binade x - 53) + 1)" by simp
    also have "\<dots> = 2 powi (binade x - 53) * 2 powi 1"
      by (rule power_int_add) simp
    finally show ?thesis by simp
  qed
  finally show ?thesis .
qed

lemma fl_rel:
  assumes "0 < x"
  shows "x * (1 - 1 / 2 ^ 53) \<le> fl x \<and> fl x \<le> x * (1 + 1 / 2 ^ 53)"
proof -
  have x: "x \<noteq> 0" using assms by simp
  have "(2::real) powi (binade x - 53) = 2 powi binade x / 2 powi 53"
    by (rule power_int_diff) simp
  also have "\<dots> \<le> \<bar>x\<bar> / 2 powi 53"
    using binade_bounds [OF x] by (intro divide_right_mono) simp_all
  finally have "\<bar>fl x - x\<bar> \<le> x / 2 ^ 53"
    using fl_error [OF x] assms by simp
  then have "fl x - x \<le> x / 2 ^ 53" "x - fl x \<le> x / 2 ^ 53"
    by linarith+
  then show ?thesis by (simp add: field_simps)
qed

lemma fl_pos: "0 < x \<Longrightarrow> 0 < fl x"
proof -
  assume x: "0 < x"
  have "0 < x * (1 - 1 / 2 ^ 53)" using x by simp
  then show ?thesis using fl_rel [OF x] by linarith
qed

lemma fl_of_nat:
  assumes "n < 2 ^ 53"
  shows "fl (real n) = real n"
proof (cases "n = 0")
  case True
  then show ?thesis by (simp add: fl_def)
next
  case False
  let ?e = "binade (real n)"
  have x: "real n \<noteq> 0" using False by simp
  from binade_bounds [OF x]
  have lo: "2 powi ?e \<le> real n" and hi: "real n < 2 powi (?e + 1)" by simp_all
  have "real n < 2 ^ 53" using assms
    by (metis of_nat_less_iff of_nat_numeral of_nat_power)
  then have "(2::real) powi ?e < 2 powi 53" using lo by simp
  then have e52: "?e < 53" by (rule power_int_le_imp_less_exp [rotated]) simp_all
  have "1 \<le> real n" using False by simp
  then have "(2::real) powi 0 < 2 powi (?e + 1)" using hi by simp
  then have e0: "0 \<le> ?e"
  proof -
    have "\<not> ?e + 1 \<le> 0"
    proof
      assume "?e + 1 \<le> 0"
      then have "(2::real) powi (?e + 1) \<le> 2 powi 0"
        by (intro power_int_increasing) simp_all
      with \<open>(2::real) powi 0 < 2 powi (?e + 1)\<close> show False by simp
    qed
    then show ?thesis by simp
  qed
  have ulp: "(2::real) powi (?e - 52) = 1 / 2 ^ nat (52 - ?e)"
  proof -
    have "(2::real) powi (?e - 52) = 2 powi (- (52 - ?e))" by simp
    also have "\<dots> = inverse (2 powi (52 - ?e))" by (rule power_int_minus)
    also have "2 powi (52 - ?e) = (2::real) ^ nat (52 - ?e)"
      using e52 by (simp add: power_int_def)
    finally show ?thesis by (simp add: field_simps)
  qed
  have "real n / 2 powi (?e - 52) = real_of_int (int n * 2 ^ nat (52 - ?e))"
    by (simp add: ulp)
  then have "round_even (real n / 2 powi (?e - 52)) = int n * 2 ^ nat (52 - ?e)"
    by (simp only: round_even_of_int)
  then have "fl (real n) = real_of_int (int n * 2 ^ nat (52 - ?e)) * (1 / 2 ^ nat (52 - ?e))"
    using x by (simp add: fl_def Let_def ulp)
  then show ?thesis by simp
qed

lemma fl_nonneg: "0 \<le> x \<Longrightarrow> 0 \<le> fl x"
proof (cases "x = 0")
  case True
  then show ?thesis by (simp add: fl_def)
next
  case False
  assume "0 \<le> x"
  then have "0 < x" using False by simp
  then show ?thesis using fl_pos by fastforce
qed

lemma fl_between:
  assumes "0 < x" "l \<le> x" "x \<le> h"
  shows "l * (1 - 1 / 2 ^ 53) \<le> fl x \<and> fl x \<le> h * (1 + 1 / 2 ^ 53)"
proof -
  have "l * (1 - 1 / 2 ^ 53) \<le> x * (1 - 1 / 2 ^ 53)"
    using assms(2) by (intro mult_right_mono) simp_all
  moreover have "x * (1 + 1 / 2 ^ 53) \<le> h * (1 + 1 / 2 ^ 53)"
    using assms(3) by (intro mult_right_mono) simp_all
  ultimately show ?thesis using fl_rel [OF assms(1)] by linarith
qed

lemma scale_near_one:
  assumes "0 < \<mu>"
  shows "1 - 1 / 2 ^ 51 \<le> fl (fl (fl (fl (\<mu> + \<mu>) + \<mu>) / 3) / \<mu>)
       \<and> fl (fl (fl (fl (\<mu> + \<mu>) + \<mu>) / 3) / \<mu>) \<le> 1 + 1 / 2 ^ 51"
proof -
  define u :: real where "u = 1 / 2 ^ 53"
  have u: "0 < u" "u < 1" by (simp_all add: u_def)
  define a where "a = fl (\<mu> + \<mu>)"
  define b where "b = fl (a + \<mu>)"
  define c where "c = fl (b / 3)"
  define s where "s = fl (c / \<mu>)"
  have a: "2 * \<mu> * (1 - u) \<le> a" "a \<le> 2 * \<mu> * (1 + u)"
    using fl_between [of "\<mu> + \<mu>" "2 * \<mu>" "2 * \<mu>"] assms by (simp_all add: a_def u_def)
  have apos: "0 < a" unfolding a_def using assms by (intro fl_pos) simp
  have b: "(2 * \<mu> * (1 - u) + \<mu>) * (1 - u) \<le> b" "b \<le> (2 * \<mu> * (1 + u) + \<mu>) * (1 + u)"
    using fl_between [of "a + \<mu>" "2 * \<mu> * (1 - u) + \<mu>" "2 * \<mu> * (1 + u) + \<mu>"] a apos assms
    by (simp_all add: b_def u_def)
  have bpos: "0 < b" unfolding b_def using assms apos by (intro fl_pos) simp
  have c: "(2 * \<mu> * (1 - u) + \<mu>) * (1 - u) / 3 * (1 - u) \<le> c"
    "c \<le> (2 * \<mu> * (1 + u) + \<mu>) * (1 + u) / 3 * (1 + u)"
    using fl_between [of "b / 3" "(2 * \<mu> * (1 - u) + \<mu>) * (1 - u) / 3"
        "(2 * \<mu> * (1 + u) + \<mu>) * (1 + u) / 3"] b bpos
    by (simp_all add: c_def u_def)
  have cpos: "0 < c" unfolding c_def using bpos by (intro fl_pos) simp
  have lo: "(2 * (1 - u) + 1) * (1 - u) / 3 * (1 - u) \<le> c / \<mu>"
  proof -
    have "(2 * (1 - u) + 1) * (1 - u) / 3 * (1 - u)
            = ((2 * \<mu> * (1 - u) + \<mu>) * (1 - u) / 3 * (1 - u)) / \<mu>"
      using assms by (simp add: field_simps)
    also have "\<dots> \<le> c / \<mu>"
      using c(1) assms by (intro divide_right_mono) simp_all
    finally show ?thesis .
  qed
  have hi: "c / \<mu> \<le> (2 * (1 + u) + 1) * (1 + u) / 3 * (1 + u)"
  proof -
    have "c / \<mu> \<le> ((2 * \<mu> * (1 + u) + \<mu>) * (1 + u) / 3 * (1 + u)) / \<mu>"
      using c(2) assms by (intro divide_right_mono) simp_all
    also have "\<dots> = (2 * (1 + u) + 1) * (1 + u) / 3 * (1 + u)"
      using assms by (simp add: field_simps)
    finally show ?thesis .
  qed
  have "0 < c / \<mu>" using cpos assms by simp
  from fl_between [OF this lo hi]
  have "(2 * (1 - u) + 1) * (1 - u) / 3 * (1 - u) * (1 - u) \<le> s"
    and "s \<le> (2 * (1 + u) + 1) * (1 + u) / 3 * (1 + u) * (1 + u)"
    by (simp_all add: s_def u_def)
  moreover have "1 - 1 / 2 ^ 51 \<le> (2 * (1 - u) + 1) * (1 - u) / 3 * (1 - u) * (1 - u)"
    unfolding u_def by simp
  moreover have "(2 * (1 + u) + 1) * (1 + u) / 3 * (1 + u) * (1 + u) \<le> 1 + 1 / 2 ^ 51"
    unfolding u_def by simp
  ultimately show ?thesis unfolding s_def c_def b_def a_def by linarith
qed

section \<open>The gray-world balancer\<close>

lemma byte_le_255: "unat (p :: byte) \<le> 255"
proof -
  have "unat p < 256" using unsigned_less [of p, where ?'a = nat] by simp
  then show ?thesis by simp
qed

lemma fold_three_sums_fl:
  fixes f g h :: "nat \<Rightarrow> nat"
  assumes "\<forall>j. f j \<le> 255 \<and> g j \<le> 255 \<and> h j \<le> 255" "255 * m < 2 ^ 53" "k \<le> m"
  shows "fold (\<lambda>j (sumR, sumG, sumB).
                 (fl (sumR + real (f j)), fl (sumG + real (g j)), fl (sumB + real (h j))))
           [0..<k] (0, 0, 0)
         = ((\<Sum>j<k. real (f j)), (\<Sum>j<k. real (g j)), (\<Sum>j<k. real (h j)))"
  using assms(3)
proof (induction k)
  case 0
  then show ?case by simp
next
  case (Suc k)
  have small: "(\<Sum>j<Suc k. q j) < 2 ^ 53" if "\<forall>j. q j \<le> 255" for q :: "nat \<Rightarrow> nat"
  proof -
    have "(\<Sum>j<Suc k. q j) \<le> (\<Sum>j<Suc k. 255)"
      using that by (intro sum_mono) simp
    also have "\<dots> = 255 * Suc k" by simp
    also have "\<dots> \<le> 255 * m" using Suc.prems by simp
    finally show ?thesis using assms(2) by simp
  qed
  have step: "fl ((\<Sum>j<k. real (q j)) + real (q k)) = (\<Sum>j<Suc k. real (q j))"
    if "\<forall>j. q j \<le> 255" for q :: "nat \<Rightarrow> nat"
  proof -
    have eq: "(\<Sum>j<k. real (q j)) + real (q k) = real (\<Sum>j<Suc k. q j)" by simp
    have "fl (real (\<Sum>j<Suc k. q j)) = real (\<Sum>j<Suc k. q j)"
      by (rule fl_of_nat [OF small [OF that]])
    then have "fl ((\<Sum>j<k. real (q j)) + real (q k)) = real (\<Sum>j<Suc k. q j)"
      by (simp only: eq)
    also have "\<dots> = (\<Sum>j<Suc k. real (q j))" by (rule of_nat_sum)
    finally show ?thesis .
  qed
  have "k \<le> m" using Suc.prems by simp
  then show ?case
    using Suc.IH assms(1) by (simp add: step del: sum.lessThan_Suc)
qed

lemma Math_round_near:
  assumes "real_of_int n - 1 / 2 \<le> y" "y < real_of_int n + 1 / 2"
  shows "Math_round y = n"
  unfolding Math_round_def using assms by (intro floor_unique) simp_all

lemma round_product_near:
  fixes n :: nat
  assumes "n \<le> 255" "1 - 1 / 2 ^ 51 \<le> s" "s \<le> 1 + 1 / 2 ^ 51"
  shows "Math_round (fl (real n * s)) = int n"
proof -
  have near: "real n - 1 / 2 \<le> fl (real n * s) \<and> fl (real n * s) < real n + 1 / 2"
  proof (cases "n = 0")
    case True
    then show ?thesis by (simp add: fl_def)
  next
    case False
    then have n1: "1 \<le> real n" by simp
    have nr: "real n \<le> 255" using assms(1) by simp
    have s0: "0 < s" using assms(2) by simp
    have pos: "0 < real n * s" using n1 s0 by simp
    have "real n * (1 - 1 / 2 ^ 51) \<le> real n * s"
      using assms(2) n1 by (intro mult_left_mono) simp_all
    moreover have "real n * s \<le> real n * (1 + 1 / 2 ^ 51)"
      using assms(3) n1 by (intro mult_left_mono) simp_all
    ultimately have "real n * (1 - 1 / 2 ^ 51) * (1 - 1 / 2 ^ 53) \<le> fl (real n * s)"
      and "fl (real n * s) \<le> real n * (1 + 1 / 2 ^ 51) * (1 + 1 / 2 ^ 53)"
      using fl_between [OF pos] by blast+
    then show ?thesis using n1 nr by (simp add: field_simps)
  qed
  show ?thesis
    using near by (intro Math_round_near) simp_all
qed

lemma clamp_byte_near:
  fixes p :: byte
  assumes "1 - 1 / 2 ^ 51 \<le> s" "s \<le> 1 + 1 / 2 ^ 51"
  shows "clamp_byte (fl (real (unat p) * s)) = p"
proof -
  have "Math_round (fl (real (unat p) * s)) = int (unat p)"
    using byte_le_255 assms by (rule round_product_near)
  moreover have "min 255 (max 0 (int (unat p))) = int (unat p)"
    using byte_le_255 [of p] by linarith
  ultimately have "clamp_byte (fl (real (unat p) * s)) = word_of_int (int (unat p))"
    by (simp only: clamp_byte_def)
  then show ?thesis by simp
qed

lemma grayWorld_sums_fl:
  assumes "255 * m < 2 ^ 53"
  shows "for_loop 0 (3 * m) 3
     (\<lambda>i (sumR, sumG, sumB).
        (fl (sumR + real (unat (pixels ! i))),
         fl (sumG + real (unat (pixels ! (i + 1)))),
         fl (sumB + real (unat (pixels ! (i + 2))))))
     (0, 0, 0)
   = ((\<Sum>j<m. real (unat ((pixels :: byte list) ! (j * 3)))),
      (\<Sum>j<m. real (unat (pixels ! (j * 3 + 1)))),
      (\<Sum>j<m. real (unat (pixels ! (j * 3 + 2)))))"
proof -
  have le: "\<forall>j. unat (pixels ! (j * 3)) \<le> 255 \<and> unat (pixels ! (j * 3 + 1)) \<le> 255
              \<and> unat (pixels ! (j * 3 + 2)) \<le> 255"
    by (simp only: byte_le_255 simp_thms)
  show ?thesis
    unfolding for_loop_three
    by (rule fold_three_sums_fl [OF le assms order_refl])
qed

lemma grayWorld_scales_value:
  fixes pixels :: "byte list"
  assumes "0 < m" "255 * m < 2 ^ 53"
    and "(\<Sum>j<m. real (unat (pixels ! (j * 3 + 1)))) = (\<Sum>j<m. real (unat (pixels ! (j * 3))))"
    and "(\<Sum>j<m. real (unat (pixels ! (j * 3 + 2)))) = (\<Sum>j<m. real (unat (pixels ! (j * 3))))"
    and "\<mu> = fl (fl ((\<Sum>j<m. real (unat (pixels ! (j * 3)))) / real m) + fl (1 / 1000000))"
  shows "grayWorld_scales pixels (3 * m)
          = (fl (fl (fl (fl (\<mu> + \<mu>) + \<mu>) / 3) / \<mu>),
             fl (fl (fl (fl (\<mu> + \<mu>) + \<mu>) / 3) / \<mu>),
             fl (fl (fl (fl (\<mu> + \<mu>) + \<mu>) / 3) / \<mu>))"
    and "0 < \<mu>"
proof -
  let ?R = "\<Sum>j<m. real (unat (pixels ! (j * 3)))"
  have nn: "0 \<le> ?R"
    by (intro sum_nonneg of_nat_0_le_iff)
  have "m < 2 ^ 53" using assms(2) by simp
  then have cnt: "fl (real (3 * m) / 3) = real m"
    using fl_of_nat [of m] by simp
  have "0 \<le> fl (?R / real m)"
    using nn by (intro fl_nonneg) simp
  moreover have "0 < fl (1 / 1000000)"
    by (intro fl_pos) simp
  ultimately show "0 < \<mu>"
    unfolding assms(5) by (intro fl_pos) linarith
  show "grayWorld_scales pixels (3 * m)
          = (fl (fl (fl (fl (\<mu> + \<mu>) + \<mu>) / 3) / \<mu>),
             fl (fl (fl (fl (\<mu> + \<mu>) + \<mu>) / 3) / \<mu>),
             fl (fl (fl (fl (\<mu> + \<mu>) + \<mu>) / 3) / \<mu>))"
    unfolding grayWorld_scales_def grayWorld_sums_fl [OF assms(2)] Let_def prod.case cnt
      assms(3,4) assms(5) [symmetric] ..
qed

lemma grayWorld_scales_gray:
  fixes pixels :: "byte list"
  assumes "length pixels = 3 * m" "0 < m" "255 * m < 2 ^ 53"
    and "channel_mean pixels 0 = channel_mean pixels 1"
    and "channel_mean pixels 1 = channel_mean pixels 2"
  shows "\<exists>s. grayWorld_scales pixels (length pixels) = (s, s, s)
           \<and> 1 - 1 / 2 ^ 51 \<le> s \<and> s \<le> 1 + 1 / 2 ^ 51"
proof -
  let ?R = "\<Sum>j<m. real (unat (pixels ! (j * 3)))"
  let ?G = "\<Sum>j<m. real (unat (pixels ! (j * 3 + 1)))"
  let ?B = "\<Sum>j<m. real (unat (pixels ! (j * 3 + 2)))"
  have m: "length pixels div 3 = m" using assms(1) by simp
  have g: "?G = ?R" and b: "?B = ?R"
    using assms(2,4,5) by (simp_all add: channel_mean_def m)
  define \<mu> where "\<mu> = fl (fl (?R / real m) + fl (1 / 1000000))"
  note v = grayWorld_scales_value [OF assms(2,3) g b \<mu>_def]
  show ?thesis
    using v(1) scale_near_one [OF v(2)] by (simp only: assms(1)) blast
qed

lemma fold_copy3_length:
  "length (fold (\<lambda>j out. out[j * 3 := f (j * 3), j * 3 + 1 := f (j * 3 + 1),
                             j * 3 + 2 := f (j * 3 + 2)]) [0..<n] init) = length init"
  by (induction n) simp_all

lemma fold_copy3_nth:
  assumes "k < length init"
  shows "fold (\<lambda>j out. out[j * 3 := f (j * 3), j * 3 + 1 := f (j * 3 + 1),
                          j * 3 + 2 := f (j * 3 + 2)]) [0..<n] init ! k
           = (if k < 3 * n then f k else init ! k)"
proof (induction n)
  case 0
  then show ?case by simp
next
  case (Suc n)
  let ?prev = "fold (\<lambda>j out. out[j * 3 := f (j * 3), j * 3 + 1 := f (j * 3 + 1),
                          j * 3 + 2 := f (j * 3 + 2)]) [0..<n] init"
  have len: "k < length ?prev" using assms by (simp only: fold_copy3_length)
  have "k < 3 * n \<or> k = n * 3 \<or> k = n * 3 + 1 \<or> k = n * 3 + 2 \<or> 3 * Suc n \<le> k"
    by arith
  then show ?case
  proof (elim disjE)
    assume "k < 3 * n"
    then show ?thesis using Suc len by (simp add: nth_list_update)
  next
    assume "k = n * 3"
    then show ?thesis using len by (simp add: nth_list_update)
  next
    assume "k = n * 3 + 1"
    then show ?thesis using len by (simp add: nth_list_update)
  next
    assume "k = n * 3 + 2"
    then show ?thesis using len by (simp add: nth_list_update)
  next
    assume "3 * Suc n \<le> k"
    then show ?thesis using Suc len by (simp add: nth_list_update)
  qed
qed

lemma applyGrayWorld_gray:
  fixes pixels :: "byte list"
  assumes "length pixels = 3 * m" "0 < m" "255 * m < 2 ^ 53"
    and "channel_mean pixels 0 = channel_mean pixels 1"
    and "channel_mean pixels 1 = channel_mean pixels 2"
  shows "applyGrayWorld pixels (length pixels) = pixels"
proof -
  let ?copy = "\<lambda>j out. out[j * 3 := pixels ! (j * 3), j * 3 + 1 := pixels ! (j * 3 + 1),
                            j * 3 + 2 := pixels ! (j * 3 + 2)]"
  from grayWorld_scales_gray [OF assms]
  obtain s where sc: "grayWorld_scales pixels (3 * m) = (s, s, s)"
    and s: "1 - 1 / 2 ^ 51 \<le> s" "s \<le> 1 + 1 / 2 ^ 51"
    by (auto simp only: assms(1))
  have "applyGrayWorld pixels (3 * m) = fold ?copy [0..<m] (replicate (3 * m) 0)"
    unfolding applyGrayWorld_def sc prod.case Let_def clamp_byte_near [OF s] for_loop_three ..
  then have "applyGrayWorld pixels (length pixels)
          = fold ?copy [0..<m] (replicate (3 * m) 0)"
    by (simp only: assms(1))
  also have "\<dots> = pixels"
  proof (rule nth_equalityI)
    show "length (fold ?copy [0..<m] (replicate (3 * m) 0)) = length pixels"
      by (simp only: fold_copy3_length length_replicate assms(1))
    fix k
    assume "k < length (fold ?copy [0..<m] (replicate (3 * m) 0))"
    then have k: "k < 3 * m" by (simp only: fold_copy3_length length_replicate)
    then have "k < length (replicate (3 * m) (0 :: byte))" by simp
    from fold_copy3_nth [OF this, of "\<lambda>i. pixels ! i" m] k
    show "fold ?copy [0..<m] (replicate (3 * m) 0) ! k = pixels ! k" by simp
  qed
  finally show ?thesis .
qed

lemma gray3_sum:
  assumes "c < 3"
  shows "(\<Sum>j<50176. real (unat (gray3 ! (j * 3 + c)))) = 150528"
proof -
  have "(\<Sum>j<50176. real (unat (gray3 ! (j * 3 + c)))) = (\<Sum>j<(50176::nat). 3)"
  proof (rule sum.cong [OF refl])
    fix j :: nat
    assume "j \<in> {..<50176}"
    then have "j * 3 + c < 224 * 224 * 3" using assms by simp
    then have "gray3 ! (j * 3 + c) = 3" unfolding gray3_def by (rule nth_replicate)
    then show "real (unat (gray3 ! (j * 3 + c))) = 3" by simp
  qed
  then show ?thesis by simp
qed

lemma gray3_length: "length gray3 = 3 * 50176"
  by (simp add: gray3_def)

lemma gray3_mean: "c < 3 \<Longrightarrow> channel_mean gray3 c = 3"
  using gray3_sum [of c] by (simp add: channel_mean_def gray3_length)

lemma gray3_mu: "fl (fl (150528 / 50176) + fl (1 / 1000000)) = 3377700846427779 / 1125899906842624"
  by code_simp

lemma gray3_sigma:
  "fl (fl (fl (fl (3377700846427779 / 1125899906842624 + 3377700846427779 / 1125899906842624)
                 + 3377700846427779 / 1125899906842624) / 3)
         / (3377700846427779 / 1125899906842624)) = 1 - 1 / 2 ^ 53"
  by code_simp

lemma gray3_scales:
  "grayWorld_scales gray3 (length gray3) = (1 - 1 / 2 ^ 53, 1 - 1 / 2 ^ 53, 1 - 1 / 2 ^ 53)"
proof -
  have s0: "(\<Sum>j<50176. real (unat (gray3 ! (j * 3)))) = 150528"
    using gray3_sum [of 0] by simp
  have s1: "(\<Sum>j<50176. real (unat (gray3 ! (j * 3 + 1)))) = (\<Sum>j<50176. real (unat (gray3 ! (j * 3))))"
    using gray3_sum [of 1] s0 by simp
  have s2: "(\<Sum>j<50176. real (unat (gray3 ! (j * 3 + 2)))) = (\<Sum>j<50176. real (unat (gray3 ! (j * 3))))"
    using gray3_sum [of 2] s0 by simp
  have mu: "3377700846427779 / 1125899906842624
              = fl (fl ((\<Sum>j<50176. real (unat (gray3 ! (j * 3)))) / real 50176) + fl (1 / 1000000))"
    unfolding s0 using gray3_mu by simp
  have "grayWorld_scales gray3 (3 * 50176)
          = (1 - 1 / 2 ^ 53, 1 - 1 / 2 ^ 53, 1 - 1 / 2 ^ 53)"
    using grayWorld_scales_value(1) [of 50176 gray3, OF _ _ s1 s2 mu]
    by (simp only: gray3_sigma) simp
  then show ?thesis by (simp only: gray3_length)
qed

section \<open>The tensor builder\<close>

lemma fold_planes_length:
  "length (fold (\<lambda>i t. t[i := f0 i, tp + i := f1 i, 2 * tp + i := f2 i]) [0..<n] init)
     = length init"
  by (induction n) simp_all

lemma fold_planes_nth:
  assumes "length init = 3 * tp" "i < tp" "n \<le> tp"
  shows "fold (\<lambda>i t. t[i := f0 i, tp + i := f1 i, 2 * tp + i := f2 i]) [0..<n] init ! i
           = (if i < n then f0 i else init ! i)"
    and "fold (\<lambda>i t. t[i := f0 i, tp + i := f1 i, 2 * tp + i := f2 i]) [0..<n] init ! (tp + i)
           = (if i < n then f1 i else init ! (tp + i))"
    and "fold (\<lambda>i t. t[i := f0 i, tp + i := f1 i, 2 * tp + i := f2 i]) [0..<n] init ! (2 * tp + i)
           = (if i < n then f2 i else init ! (2 * tp + i))"
  using assms(3)
proof (induction n)
  case 0
  {
    case 1 show ?case by simp
  next
    case 2 show ?case by simp
  next
    case 3 show ?case by simp
  }
next
  case (Suc n)
  let ?prev = "fold (\<lambda>i t. t[i := f0 i, tp + i := f1 i, 2 * tp + i := f2 i]) [0..<n] init"
  have len: "length ?prev = 3 * tp" using assms(1) by (simp only: fold_planes_length)
  {
    case 1
    then have "n \<le> tp" by simp
    then show ?case using Suc.IH(1) len assms(2) 1 by (simp add: nth_list_update)
  next
    case 2
    then have "n \<le> tp" by simp
    then show ?case using Suc.IH(2) len assms(2) 2 by (simp add: nth_list_update)
  next
    case 3
    then have "n \<le> tp" by simp
    then show ?case using Suc.IH(3) len assms(2) 3 by (simp add: nth_list_update)
  }
qed

lemma build_tensor_length: "length (build_tensor balanced) = 3 * (224 * 224)"
  unfolding build_tensor_def Let_def for_loop_unit fold_planes_length
  by (simp add: TARGET_SIZE_def)

lemma build_tensor_nth:
  assumes "c < 3" "i < 224 * 224"
  shows "build_tensor balanced ! (c * (224 * 224) + i)
           = (real (unat (balanced ! (i * 3 + c))) / 255 - IMAGENET_MEAN ! c) / IMAGENET_STD ! c"
proof -
  have tp: "TARGET_SIZE * TARGET_SIZE = 224 * 224" by (simp add: TARGET_SIZE_def)
  have len: "length (replicate (3 * (224 * 224)) (0 :: real)) = 3 * (224 * 224)"
    by (simp only: length_replicate)
  note planes = fold_planes_nth [OF len assms(2) order_refl]
  have "c = 0 \<or> c = 1 \<or> c = 2" using assms(1) by arith
  then show ?thesis
  proof (elim disjE)
    assume "c = 0"
    then show ?thesis
      unfolding build_tensor_def Let_def for_loop_unit tp
      using planes(1) assms(2) by simp
  next
    assume "c = 1"
    then show ?thesis
      unfolding build_tensor_def Let_def for_loop_unit tp
      using planes(2) assms(2) by simp
  next
    assume "c = 2"
    then show ?thesis
      unfolding build_tensor_def Let_def for_loop_unit tp
      using planes(3) assms(2) by simp
  qed
qed

section \<open>The pipeline\<close>

lemma preprocessImage_decoded:
  assumes "decode imageBuffer = Inr r"
    and "info_width r = 256" "info_height r = 256" "length (resized_data r) = 256 * 256 * 3"
  shows "\<exists>cropped. center_crop r = Inr cropped \<and> length cropped = 224 * 224 * 3
           \<and> preprocessImage decode imageBuffer
               = Inr \<lparr>data = build_tensor (applyGrayWorld cropped (length cropped)),
                      channels = 3, height = 224, width = 224\<rparr>"
proof -
  from center_crop_pixels [OF assms(2,3,4)]
  obtain cropped where "center_crop r = Inr cropped" "length cropped = 224 * 224 * 3"
    by blast
  then show ?thesis
    using assms(1) by (simp add: preprocessImage_def Let_def TARGET_SIZE_def)
qed

lemma predict_probabilities:
  "map probability (probabilities (predict img)) = softmax (fst (predict_logits img))"
proof -
  let ?ps = "softmax (fst (predict_logits img))"
  have len: "length ?ps = 6"
    by (simp add: softmax_length predict_logits_calls)
  from buildResult_first_max [OF len]
  have "probabilities (buildResult ?ps)
          = map (\<lambda>i. \<lparr>className = TURBIDITY_CLASSES ! i,
                       label = TURBIDITY_LABELS (TURBIDITY_CLASSES ! i),
                       probability = ?ps ! i\<rparr>) [0..<6]"
    by auto
  then have "map probability (probabilities (predict img)) = map (\<lambda>i. ?ps ! i) [0..<length ?ps]"
    by (simp add: predict_def comp_def len del: upt_rec_numeral)
  then show ?thesis by (simp only: map_nth)
qed

lemma predict_probabilities_sum:
  "length (probabilities (predict img)) = 6
   \<and> (\<Sum>p\<leftarrow>probabilities (predict img). probability p) = 1"
proof -
  let ?ps = "softmax (fst (predict_logits img))"
  have len: "length ?ps = 6"
    by (simp add: softmax_length predict_logits_calls)
  have "length (map probability (probabilities (predict img))) = 6"
    by (simp only: predict_probabilities len)
  moreover have "fst (predict_logits img) \<noteq> []"
    by (simp add: predict_logits_calls)
  then have "sum_list ?ps = 1"
    by (rule softmax_sum)
  then have "sum_list (map probability (probabilities (predict img))) = 1"
    by (simp only: predict_probabilities)
  ultimately show ?thesis by simp
qed

lemma blank_resized_shape:
  "info_width blank_resized = 256" "info_height blank_resized = 256"
  "length (resized_data blank_resized) = 256 * 256 * 3"
  by (simp_all add: blank_resized_def)

text \<open>
  C2. Whenever \<open>preprocessImage\<close> succeeds, the image was decoded and cropped, and the
  tensor returned has exactly \<open>3 * 224 * 224\<close> values in channel-first layout, with
  \<open>tensor[c * 224 * 224 + i] = (balanced[i * 3 + c] / 255 - mean[c]) / std[c]\<close> where
  \<open>balanced\<close> is the gray-world balanced crop, and \<open>predict\<close> on it returns six
  probabilities whose sum is within \<open>1e-6\<close> of 1.
\<close>

theorem preprocess_tensor_layout:
  assumes "preprocessImage decode imageBuffer = Inr img"
  shows "\<exists>resized cropped.
           decode imageBuffer = Inr resized \<and> center_crop resized = Inr cropped
           \<and> channels img = 3 \<and> height img = 224 \<and> width img = 224
           \<and> length (data img) = 3 * 224 * 224
           \<and> (\<forall>i<224 * 224. \<forall>c<3.
                 data img ! (c * 224 * 224 + i)
                   = (real (unat (applyGrayWorld cropped (length cropped) ! (i * 3 + c))) / 255
                        - IMAGENET_MEAN ! c) / IMAGENET_STD ! c)
           \<and> length (probabilities (predict img)) = 6
           \<and> \<bar>(\<Sum>p\<leftarrow>probabilities (predict img). probability p) - 1\<bar> \<le> 1 / 1000000"
proof -
  from assms obtain resized cropped where dec: "decode imageBuffer = Inr resized"
    and crop: "center_crop resized = Inr cropped"
    and img: "img = \<lparr>data = build_tensor (applyGrayWorld cropped (length cropped)),
                      channels = 3, height = TARGET_SIZE, width = TARGET_SIZE\<rparr>"
    by (auto simp: preprocessImage_def Let_def split: sum.splits)
  have shape: "channels img = 3 \<and> height img = 224 \<and> width img = 224"
    by (simp add: img TARGET_SIZE_def)
  have len: "length (data img) = 3 * 224 * 224"
    using build_tensor_length [of "applyGrayWorld cropped (length cropped)"] by (simp add: img)
  have nth: "\<forall>i<224 * 224. \<forall>c<3.
                 data img ! (c * 224 * 224 + i)
                   = (real (unat (applyGrayWorld cropped (length cropped) ! (i * 3 + c))) / 255
                        - IMAGENET_MEAN ! c) / IMAGENET_STD ! c"
  proof (intro allI impI)
    fix i c :: nat
    assume "i < 224 * 224" "c < 3"
    from build_tensor_nth [OF this(2,1), of "applyGrayWorld cropped (length cropped)"]
    show "data img ! (c * 224 * 224 + i)
                   = (real (unat (applyGrayWorld cropped (length cropped) ! (i * 3 + c))) / 255
                        - IMAGENET_MEAN ! c) / IMAGENET_STD ! c"
      by (simp add: img mult.assoc)
  qed
  have "length (probabilities (predict img)) = 6"
    and "\<bar>(\<Sum>p\<leftarrow>probabilities (predict img). probability p) - 1\<bar> \<le> 1 / 1000000"
    using predict_probabilities_sum [of img] by simp_all
  then show ?thesis using dec crop shape len nth by blast
qed

text \<open>The theorem at the example decoder and a non-empty buffer.\<close>

theorem preprocess_tensor_layout_witness:
  "\<exists>img. preprocessImage sample_decode [255, 216] = Inr img
     \<and> (\<exists>resized cropped.
           sample_decode [255, 216] = Inr resized \<and> center_crop resized = Inr cropped
           \<and> channels img = 3 \<and> height img = 224 \<and> width img = 224
           \<and> length (data img) = 3 * 224 * 224
           \<and> (\<forall>i<224 * 224. \<forall>c<3.
                 data img ! (c * 224 * 224 + i)
                   = (real (unat (applyGrayWorld cropped (length cropped) ! (i * 3 + c))) / 255
                        - IMAGENET_MEAN ! c) / IMAGENET_STD ! c)
           \<and> length (probabilities (predict img)) = 6
           \<and> \<bar>(\<Sum>p\<leftarrow>probabilities (predict img). probability p) - 1\<bar> \<le> 1 / 1000000)"
proof -
  have d: "sample_decode [255, 216] = Inr blank_resized"
    by (simp add: sample_decode_def)
  from preprocessImage_decoded [of sample_decode "[255, 216]" blank_resized,
      OF d blank_resized_shape]
  obtain img where pre: "preprocessImage sample_decode [255, 216] = Inr img"
    by blast
  from preprocess_tensor_layout [OF pre] pre show ?thesis
    by blast
qed

text \<open>
  C8, as stated, fails. The buffer of 224 by 224 pixels of the gray level 3 has three equal
  channel means, and the balancer computes, in doubles, the scale factors \<open>1 - 2^-53\<close>
  (printed \<open>0.9999999999999999\<close>), not 1.0: the mean \<open>3 + 1e-6\<close> rounds to a double whose
  triple rounds down, and a third of that is the double just below the mean.
\<close>

theorem grayWorld_scale_not_one:
  "length gray3 = 224 * 224 * 3
   \<and> channel_mean gray3 0 = channel_mean gray3 1 \<and> channel_mean gray3 1 = channel_mean gray3 2
   \<and> grayWorld_scales gray3 (length gray3) = (1 - 1 / 2 ^ 53, 1 - 1 / 2 ^ 53, 1 - 1 / 2 ^ 53)
   \<and> grayWorld_scales gray3 (length gray3) \<noteq> (1, 1, 1)"
proof -
  have len: "length gray3 = 224 * 224 * 3"
    by (simp add: gray3_def)
  have m01: "channel_mean gray3 0 = channel_mean gray3 1"
    and m12: "channel_mean gray3 1 = channel_mean gray3 2"
    using gray3_mean [of 0] gray3_mean [of 1] gray3_mean [of 2] by simp_all
  have ne: "grayWorld_scales gray3 (length gray3) \<noteq> (1, 1, 1)"
    unfolding gray3_scales by simp
  show ?thesis
    using len m01 m12 gray3_scales ne by blast
qed

text \<open>
  C8, amended. For a buffer of \<open>m > 0\<close> RGB pixels (\<open>m = 224 * 224\<close> in the pipeline; \<open>m\<close>
  small enough for the channel sums to be exact in doubles) whose three channel means are
  equal, the three scale factors of the gray-world balancer are one and the same double,
  within \<open>2^-51\<close> of 1, and the balanced buffer is the input buffer.
\<close>

theorem grayWorld_identity:
  fixes pixels :: "byte list"
  assumes "length pixels = 3 * m" "0 < m" "255 * m < 2 ^ 53"
    and "channel_mean pixels 0 = channel_mean pixels 1"
    and "channel_mean pixels 1 = channel_mean pixels 2"
  shows "(\<exists>s. grayWorld_scales pixels (length pixels) = (s, s, s) \<and> \<bar>s - 1\<bar> \<le> 1 / 2 ^ 51)
       \<and> applyGrayWorld pixels (length pixels) = pixels"
proof -
  from grayWorld_scales_gray [OF assms]
  obtain s where "grayWorld_scales pixels (length pixels) = (s, s, s)"
    and "1 - 1 / 2 ^ 51 \<le> s" "s \<le> 1 + 1 / 2 ^ 51"
    by blast
  moreover from this(2,3) have "\<bar>s - 1\<bar> \<le> 1 / 2 ^ 51" by linarith
  ultimately show ?thesis using applyGrayWorld_gray [OF assms] by blast
qed

text \<open>The theorem at the buffer of 224 by 224 pixels of the gray level 3.\<close>

theorem grayWorld_identity_witness:
  "length gray3 = 3 * 50176 \<and> (0 :: nat) < 50176 \<and> (255 * 50176 :: nat) < 2 ^ 53
   \<and> channel_mean gray3 0 = channel_mean gray3 1 \<and> channel_mean gray3 1 = channel_mean gray3 2
   \<and> (\<exists>s. grayWorld_scales gray3 (length gray3) = (s, s, s) \<and> \<bar>s - 1\<bar> \<le> 1 / 2 ^ 51)
   \<and> applyGrayWorld gray3 (length gray3) = gray3"
proof -
  have m01: "channel_mean gray3 0 = channel_mean gray3 1"
    and m12: "channel_mean gray3 1 = channel_mean gray3 2"
    using gray3_mean [of 0] gray3_mean [of 1] gray3_mean [of 2] by simp_all
  have pos: "(0 :: nat) < 50176" and small: "(255 * 50176 :: nat) < 2 ^ 53" by simp_all
  show ?thesis
    using grayWorld_identity [OF gray3_length pos small m01 m12] gray3_length pos small m01 m12
    by blast
qed

text \<open>
  C9. For a resized image of 256 by 256 RGB pixels both crop offsets are 16, the crop
  succeeds with a buffer of \<open>224 * 224 * 3\<close> bytes, and channel \<open>c\<close> of output pixel
  \<open>(x, y)\<close> is channel \<open>c\<close> of source pixel \<open>(x + 16, y + 16)\<close> for all \<open>x, y < 224\<close>; in
  particular output pixel \<open>(0, 0)\<close> is source pixel \<open>(16, 16)\<close>.
\<close>

theorem center_crop_256:
  assumes "info_width r = 256" "info_height r = 256" "length (resized_data r) = 256 * 256 * 3"
  shows "cropLeft_of r = 16 \<and> cropTop_of r = 16
       \<and> (\<exists>cropped. center_crop r = Inr cropped \<and> length cropped = 224 * 224 * 3
             \<and> (\<forall>x<224. \<forall>y<224. \<forall>c<3.
                   cropped ! ((y * 224 + x) * 3 + c)
                     = resized_data r ! (((y + 16) * 256 + (x + 16)) * 3 + c))
             \<and> (\<forall>c<3. cropped ! c = resized_data r ! ((16 * 256 + 16) * 3 + c)))"
proof -
  from center_crop_pixels [OF assms]
  obtain cropped where c: "center_crop r = Inr cropped" "length cropped = 224 * 224 * 3"
    and px: "\<forall>x<224. \<forall>y<224. \<forall>c<3.
                   cropped ! ((y * 224 + x) * 3 + c)
                     = resized_data r ! (((y + 16) * 256 + (x + 16)) * 3 + c)"
    by blast
  have "cropped ! c = resized_data r ! ((16 * 256 + 16) * 3 + c)" if "c < 3" for c
    using px [rule_format, of 0 0 c] that by simp
  moreover have "cropLeft_of r = 16" "cropTop_of r = 16"
    using assms(1,2) by (simp_all add: cropLeft_of_def cropTop_of_def TARGET_SIZE_def)
  ultimately show ?thesis using c px by blast
qed

text \<open>The theorem at the black image of 256 by 256 pixels.\<close>

theorem center_crop_256_witness:
  "info_width blank_resized = 256 \<and> info_height blank_resized = 256
   \<and> length (resized_data blank_resized) = 256 * 256 * 3
   \<and> cropLeft_of blank_resized = 16 \<and> cropTop_of blank_resized = 16
   \<and> (\<exists>cropped. center_crop blank_resized = Inr cropped \<and> length cropped = 224 * 224 * 3
         \<and> (\<forall>x<224. \<forall>y<224. \<forall>c<3.
               cropped ! ((y * 224 + x) * 3 + c)
                 = resized_data blank_resized ! (((y + 16) * 256 + (x + 16)) * 3 + c))
         \<and> (\<forall>c<3. cropped ! c = resized_data blank_resized ! ((16 * 256 + 16) * 3 + c)))"
  using center_crop_256 [OF blank_resized_shape] blank_resized_shape by blast

text \<open>
  C10. With a decoder that, when it resolves, resolves with a raw image of 256 by 256 RGB
  pixels, and that throws no \<open>AppError\<close> of this application: \<open>preprocessImage\<close> fails
  exactly when the decoder fails; every failure has the code \<open>IMAGE_PROCESSING_FAILED\<close>
  (status 422), and for an \<open>Error\<close> of the decoder the message is
  \<open>Image processing failed: \<close> followed by the decoder's message; when the decoder resolves,
  a tensor of \<open>3 * 224 * 224\<close> values is returned and \<open>predict\<close> gives the result of the
  pipeline.
\<close>

theorem preprocessImage_errors:
  assumes "\<forall>r. decode imageBuffer = Inr r \<longrightarrow>
             info_width r = 256 \<and> info_height r = 256 \<and> length (resized_data r) = 256 * 256 * 3"
    and "\<forall>err. decode imageBuffer \<noteq> Inl (ThrownAppError err)"
  shows "((\<exists>err. preprocessImage decode imageBuffer = Inl err) \<longleftrightarrow> (\<exists>t. decode imageBuffer = Inl t))
       \<and> (\<forall>err. preprocessImage decode imageBuffer = Inl err \<longrightarrow>
              code err = IMAGE_PROCESSING_FAILED \<and> statusCode err = 422)
       \<and> (\<forall>msg. decode imageBuffer = Inl (ThrownError msg) \<longrightarrow>
              preprocessImage decode imageBuffer
                = Inl \<lparr>message = ''Image processing failed: '' @ msg, statusCode = 422,
                       code = IMAGE_PROCESSING_FAILED, isOperational = True\<rparr>)
       \<and> (\<forall>r. decode imageBuffer = Inr r \<longrightarrow>
              (\<exists>img. preprocessImage decode imageBuffer = Inr img
                     \<and> length (data img) = 3 * 224 * 224
                     \<and> classify decode imageBuffer = Inr (predict img)))"
proof (cases "decode imageBuffer")
  case (Inl t)
  then have pre: "preprocessImage decode imageBuffer = Inl (catch_clause t)"
    by (simp add: preprocessImage_def)
  have "\<forall>err. t \<noteq> ThrownAppError err" using assms(2) Inl by simp
  then have "code (catch_clause t) = IMAGE_PROCESSING_FAILED \<and> statusCode (catch_clause t) = 422"
    by (cases t) (simp_all add: imageProcessing_def)
  then show ?thesis using Inl pre by (auto simp: imageProcessing_def)
next
  case (Inr r)
  then have ok: "info_width r = 256" "info_height r = 256"
    "length (resized_data r) = 256 * 256 * 3"
    using assms(1) by simp_all
  from preprocessImage_decoded [of decode imageBuffer r, OF Inr ok]
  obtain cropped where
    pre: "preprocessImage decode imageBuffer
            = Inr \<lparr>data = build_tensor (applyGrayWorld cropped (length cropped)),
                   channels = 3, height = 224, width = 224\<rparr>"
    by blast
  let ?img = "\<lparr>data = build_tensor (applyGrayWorld cropped (length cropped)),
                   channels = 3, height = 224, width = 224\<rparr>"
  have "length (data ?img) = 3 * 224 * 224"
    using build_tensor_length [of "applyGrayWorld cropped (length cropped)"] by simp
  moreover have "classify decode imageBuffer = Inr (predict ?img)"
    using pre by (simp add: classify_def)
  ultimately show ?thesis using Inr pre by auto
qed

text \<open>
  The theorem at the example decoder: the empty buffer is rejected with the decoder's
  message, another buffer is classified.
\<close>

theorem preprocessImage_errors_witness:
  "sample_decode [] = Inl (ThrownError ''Input buffer is empty'')
   \<and> preprocessImage sample_decode []
       = Inl \<lparr>message = ''Image processing failed: Input buffer is empty'', statusCode = 422,
              code = IMAGE_PROCESSING_FAILED, isOperational = True\<rparr>
   \<and> sample_decode [255, 216] = Inr blank_resized
   \<and> info_width blank_resized = 256 \<and> info_height blank_resized = 256
   \<and> length (resized_data blank_resized) = 256 * 256 * 3
   \<and> (\<exists>img. preprocessImage sample_decode [255, 216] = Inr img
            \<and> length (data img) = 3 * 224 * 224
            \<and> classify sample_decode [255, 216] = Inr (predict img))"
proof -
  have e: "sample_decode [] = Inl (ThrownError ''Input buffer is empty'')"
    by (simp add: sample_decode_def)
  have d: "sample_decode [255, 216] = Inr blank_resized"
    by (simp add: sample_decode_def)
  have h1: "\<forall>r. sample_decode [] = Inr r \<longrightarrow>
        info_width r = 256 \<and> info_height r = 256 \<and> length (resized_data r) = 256 * 256 * 3"
    and h2: "\<forall>err. sample_decode [] \<noteq> Inl (ThrownAppError err)"
    by (simp_all add: e)
  have h3: "\<forall>r. sample_decode [255, 216] = Inr r \<longrightarrow>
        info_width r = 256 \<and> info_height r = 256 \<and> length (resized_data r) = 256 * 256 * 3"
    and h4: "\<forall>err. sample_decode [255, 216] \<noteq> Inl (ThrownAppError err)"
    using blank_resized_shape by (simp_all add: d)
  show ?thesis
    using preprocessImage_errors [of sample_decode "[]", OF h1 h2]
      preprocessImage_errors [of sample_decode "[255, 216]", OF h3 h4] e d
      blank_resized_shape
    by auto
qed

end
